theory Spec2Isabelle
  imports Complex_Main "HOL-Library.Log_Nat"
begin

section \<open>Errors\<close>

text \<open>
  The exceptions the modelled code can raise. \<open>IndexError\<close>: an array is indexed outside
  its first dimension. \<open>RuntimeError\<close>: the tensor library refuses an argument (an empty
  range for \<open>torch.randint\<close>, a negative dimension, \<open>torch.cat\<close> of no tensors).
  \<open>ValueError\<close>: \<open>np.empty\<close> with a negative dimension. \<open>ZeroDivisionError\<close>: Python's
  \<open>/\<close> by zero. \<open>AttributeError\<close>: a method called on \<open>None\<close>.
\<close>

datatype error = IndexError | RuntimeError | ValueError | ZeroDivisionError | AttributeError

section \<open>The replay buffers (Main.py)\<close>

text \<open>
  \<open>class ReplayBufferBase\<close>: the fields every buffer has. A row of \<open>all_state\<close> or
  \<open>all_other\<close> is one cell of the list; \<open>None\<close> is a row that \<open>torch.empty\<close> /
  \<open>np.empty\<close> allocated and nothing has written yet (its content is whatever the
  allocator left there). Rows are taken at the configured widths and already in the
  array's element type; the conversion to float32 and the shape check of the array
  library are outside the model.
\<close>

record ('s, 'o) ReplayBufferBase =
  max_len :: nat
  now_len :: nat
  next_idx :: nat
  if_full :: bool
  all_state :: "'s option list"
  all_other :: "'o option list"

text \<open>
  \<open>class ReplayBufferCPU(ReplayBufferBase)\<close> adds two attributes of its own:
  \<open>is_full\<close> (sic: the base class's flag is \<open>if_full\<close>) and \<open>action_dim\<close>.
  \<open>class ReplayBufferGPU(ReplayBufferBase)\<close> adds none.
\<close>

record ('s, 'o) ReplayBufferCPU = "('s, 'o) ReplayBufferBase" +
  is_full :: bool
  action_dim :: nat

type_synonym ('s, 'o) ReplayBufferGPU = "('s, 'o) ReplayBufferBase"

text \<open>
  \<^verbatim>\<open>
  def update__now_len__before_sample(self):
      self.now_len = self.max_len if self.if_full else self.next_idx

  def empty_memories__before_explore(self):
      self.next_idx = 0
      self.now_len = 0
      self.if_full = False
  \<close>
  Both are methods of the base class, so they are defined on the record scheme and
  apply to either buffer.
\<close>

definition update__now_len__before_sample ::
  "('s, 'o, 'z) ReplayBufferBase_scheme \<Rightarrow> ('s, 'o, 'z) ReplayBufferBase_scheme" where
  "update__now_len__before_sample b =
     b\<lparr>now_len := (if if_full b then max_len b else next_idx b)\<rparr>"

definition empty_memories__before_explore ::
  "('s, 'o, 'z) ReplayBufferBase_scheme \<Rightarrow> ('s, 'o, 'z) ReplayBufferBase_scheme" where
  "empty_memories__before_explore b = b\<lparr>next_idx := 0, now_len := 0, if_full := False\<rparr>"

text \<open>
  \<^verbatim>\<open>
  class ReplayBufferGPU(ReplayBufferBase):
      def __init__(self, max_len, state_dim, action_dim, if_on_policy=False):
          super().__init__()
          self.max_len = max_len
          self.if_full = False
          ...
          self.all_other = torch.empty((max_len, other_dim), ...)
          self.all_state = torch.empty((max_len, state_dim), ...)
  \<close>
  \<open>max_len\<close> is a Python integer; \<open>torch.empty\<close> raises on a negative dimension.
\<close>

definition ReplayBufferGPU_init :: "int \<Rightarrow> error + ('s, 'o) ReplayBufferGPU" where
  "ReplayBufferGPU_init cap =
     (if cap < 0 then Inl RuntimeError
      else Inr \<lparr>max_len = nat cap, now_len = 0, next_idx = 0, if_full = False,
                all_state = replicate (nat cap) None,
                all_other = replicate (nat cap) None\<rparr>)"

text \<open>
  \<^verbatim>\<open>
  def append_memo(self, state, other):
      self.all_state[self.next_idx, :] = torch.as_tensor(state, device=self.device)
      self.all_other[self.next_idx] = torch.as_tensor(other, device=self.device)

      self.next_idx += 1
      if self.next_idx >= self.max_len:
          self.if_full = True
          self.next_idx = 0
  \<close>
  Indexing a row at or beyond the first dimension raises \<open>IndexError\<close>.
\<close>

definition ReplayBufferGPU_append_memo ::
  "('s, 'o) ReplayBufferGPU \<Rightarrow> 's \<Rightarrow> 'o \<Rightarrow> error + ('s, 'o) ReplayBufferGPU" where
  "ReplayBufferGPU_append_memo b state other =
     (if \<not> next_idx b < length (all_state b) then Inl IndexError
      else if \<not> next_idx b < length (all_other b) then Inl IndexError
      else
        let b1 = b\<lparr>all_state := (all_state b)[next_idx b := Some state]\<rparr>;
            b2 = b1\<lparr>all_other := (all_other b1)[next_idx b1 := Some other]\<rparr>;
            b3 = b2\<lparr>next_idx := next_idx b2 + 1\<rparr>
        in Inr (if next_idx b3 \<ge> max_len b3 then b3\<lparr>if_full := True, next_idx := 0\<rparr>
                else b3))"

text \<open>
  \<^verbatim>\<open>
  class ReplayBufferCPU(ReplayBufferBase):  # for on-policy
      def __init__(self, max_len, state_dim, action_dim):
          super().__init__()
          self.max_len = max_len
          self.is_full = True
          self.action_dim = action_dim  # for self.sample_for_ppo(
          ...
          self.all_other = np.empty((max_len, other_dim), dtype=np.float32)
          self.all_state = np.empty((max_len, state_dim), dtype=np.float32)

      def append_memo(self, state, other):  # for AgentPPO.update_buffer(
          self.all_state[self.next_idx] = state
          self.all_other[self.next_idx] = other

          self.next_idx += 1
          if self.next_idx >= self.max_len:
              self.is_full = True
              self.next_idx = 0
  \<close>
  The constructor and \<open>append_memo\<close> assign the attribute \<open>is_full\<close>; the base class's
  \<open>if_full\<close> keeps the value \<open>False\<close> that \<open>super().__init__()\<close> gave it.
\<close>

definition ReplayBufferCPU_init :: "int \<Rightarrow> nat \<Rightarrow> error + ('s, 'o) ReplayBufferCPU" where
  "ReplayBufferCPU_init cap adim =
     (if cap < 0 then Inl ValueError
      else Inr \<lparr>max_len = nat cap, now_len = 0, next_idx = 0, if_full = False,
                all_state = replicate (nat cap) None,
                all_other = replicate (nat cap) None,
                is_full = True, action_dim = adim\<rparr>)"

definition ReplayBufferCPU_append_memo ::
  "('s, 'o) ReplayBufferCPU \<Rightarrow> 's \<Rightarrow> 'o \<Rightarrow> error + ('s, 'o) ReplayBufferCPU" where
  "ReplayBufferCPU_append_memo b state other =
     (if \<not> next_idx b < length (all_state b) then Inl IndexError
      else if \<not> next_idx b < length (all_other b) then Inl IndexError
      else
        let b1 = b\<lparr>all_state := (all_state b)[next_idx b := Some state]\<rparr>;
            b2 = b1\<lparr>all_other := (all_other b1)[next_idx b1 := Some other]\<rparr>;
            b3 = b2\<lparr>next_idx := next_idx b2 + 1\<rparr>
        in Inr (if next_idx b3 \<ge> max_len b3 then b3\<lparr>is_full := True, next_idx := 0\<rparr>
                else b3))"

text \<open>
  A caller's operations on a buffer, and running a sequence of them from a given
  buffer; the run stops at the first exception.
\<close>

datatype ('s, 'o) buffer_op = Append 's 'o | Refresh | Reset

fun run_GPU ::
  "('s, 'o) ReplayBufferGPU \<Rightarrow> ('s, 'o) buffer_op list \<Rightarrow> error + ('s, 'o) ReplayBufferGPU" where
  "run_GPU b [] = Inr b"
| "run_GPU b (Append s x # ops) =
     (case ReplayBufferGPU_append_memo b s x of Inl e \<Rightarrow> Inl e | Inr b' \<Rightarrow> run_GPU b' ops)"
| "run_GPU b (Refresh # ops) = run_GPU (update__now_len__before_sample b) ops"
| "run_GPU b (Reset # ops) = run_GPU (empty_memories__before_explore b) ops"

fun run_CPU ::
  "('s, 'o) ReplayBufferCPU \<Rightarrow> ('s, 'o) buffer_op list \<Rightarrow> error + ('s, 'o) ReplayBufferCPU" where
  "run_CPU b [] = Inr b"
| "run_CPU b (Append s x # ops) =
     (case ReplayBufferCPU_append_memo b s x of Inl e \<Rightarrow> Inl e | Inr b' \<Rightarrow> run_CPU b' ops)"
| "run_CPU b (Refresh # ops) = run_CPU (update__now_len__before_sample b) ops"
| "run_CPU b (Reset # ops) = run_CPU (empty_memories__before_explore b) ops"

text \<open>
  The visible rows of a buffer, oldest first: the ring is read from the write cursor
  once it has wrapped, and from row 0 before that.
\<close>

definition visible_states :: "('s, 'o, 'z) ReplayBufferBase_scheme \<Rightarrow> 's option list" where
  "visible_states b = rotate (next_idx b) (take (now_len b) (all_state b))"

definition visible_others :: "('s, 'o, 'z) ReplayBufferBase_scheme \<Rightarrow> 'o option list" where
  "visible_others b = rotate (next_idx b) (take (now_len b) (all_other b))"

text \<open>A run of \<open>append_memo\<close> calls, one per (state, other) pair, in order.\<close>

definition appends :: "('s \<times> 'o) list \<Rightarrow> ('s, 'o) buffer_op list" where
  "appends es = map (\<lambda>(s, x). Append s x) es"

text \<open>
  What holds of a buffer between calls. \<open>cursor_inv\<close>: the arrays keep the length the
  constructor gave them and the write cursor is a valid row. \<open>visible_inv\<close>: the
  visible length lies within the arrays, does not pass the cursor of a buffer that has
  not wrapped, and every row below the fill level has been written.
\<close>

definition cursor_inv :: "('s, 'o, 'z) ReplayBufferBase_scheme \<Rightarrow> bool" where
  "cursor_inv b \<longleftrightarrow>
     length (all_state b) = max_len b \<and> length (all_other b) = max_len b \<and>
     next_idx b < max_len b"

definition visible_inv :: "('s, 'o, 'z) ReplayBufferBase_scheme \<Rightarrow> bool" where
  "visible_inv b \<longleftrightarrow>
     now_len b \<le> max_len b \<and> (if_full b \<or> now_len b \<le> next_idx b) \<and>
     (\<forall>j < (if if_full b then max_len b else next_idx b).
        all_state b ! j \<noteq> None \<and> all_other b ! j \<noteq> None)"

subsection \<open>Off-policy sampling\<close>

text \<open>
  \<open>torch.randint(high, size=(n,))\<close> draws \<open>n\<close> integers, each uniformly from
  \<open>[0, high)\<close> and independently of the others, and raises when the range is empty.
  The draw is modelled by its sample space: the list of all outcomes, each listed once
  and each equally likely.
\<close>

definition torch_randint :: "int \<Rightarrow> nat \<Rightarrow> error + nat list list" where
  "torch_randint high n =
     (if high \<le> 0 then Inl RuntimeError else Inr (List.n_lists n [0..<nat high]))"

text \<open>
  \<^verbatim>\<open>
  def random_sample(self, batch_size):
      indices = torch.randint(self.now_len - 1, size=(batch_size,), device=self.device)
      r_m_a = self.all_other[indices]
      return (r_m_a[:, 0:1],  # reward
              r_m_a[:, 1:2],  # mask = 0.0 if done else gamma
              r_m_a[:, 2:],  # action
              self.all_state[indices],  # state
              self.all_state[indices + 1])  # next_state
  \<close>
  \<open>gather\<close> is the body after the draw, for one outcome \<open>indices\<close> of it; indexing
  with an index outside the array raises. \<open>random_sample\<close> returns one result per
  outcome of the draw, in the order of the sample space.
\<close>

type_synonym ('s, 'a) batch =
  "'a list option list \<times> 'a list option list \<times> 'a list option list \<times>
   's option list \<times> 's option list"

definition gather :: "('s, 'a list) ReplayBufferGPU \<Rightarrow> nat list \<Rightarrow> error + ('s, 'a) batch" where
  "gather b indices =
     (if list_ex (\<lambda>i. \<not> i < length (all_other b)) indices then Inl IndexError
      else
        let r_m_a = map (\<lambda>i. all_other b ! i) indices in
        if list_ex (\<lambda>i. \<not> i < length (all_state b)) indices then Inl IndexError
        else if list_ex (\<lambda>i. \<not> i + 1 < length (all_state b)) indices then Inl IndexError
        else Inr (map (map_option (take 1)) r_m_a,
                  map (map_option (\<lambda>r. take 1 (drop 1 r))) r_m_a,
                  map (map_option (drop 2)) r_m_a,
                  map (\<lambda>i. all_state b ! i) indices,
                  map (\<lambda>i. all_state b ! (i + 1)) indices))"

definition random_sample ::
  "('s, 'a list) ReplayBufferGPU \<Rightarrow> nat \<Rightarrow> error + (error + ('s, 'a) batch) list" where
  "random_sample b batch_size =
     (case torch_randint (int (now_len b) - 1) batch_size of
        Inl e \<Rightarrow> Inl e
      | Inr draws \<Rightarrow> Inr (map (gather b) draws))"

text \<open>
  The number of \<open>append_memo\<close> calls since the buffer was constructed or last emptied
  by \<open>empty_memories__before_explore\<close>: \<open>fill_count n ops\<close> continues the count \<open>n\<close>
  through the operations \<open>ops\<close>.
\<close>

fun fill_count :: "nat \<Rightarrow> ('s, 'o) buffer_op list \<Rightarrow> nat" where
  "fill_count n [] = n"
| "fill_count n (Append s x # ops) = fill_count (Suc n) ops"
| "fill_count n (Refresh # ops) = fill_count n ops"
| "fill_count n (Reset # ops) = fill_count 0 ops"

section \<open>Returns and advantages (AgentZoo.py)\<close>

text \<open>
  Tensor elements are modelled as real numbers: the rounding of float32 arithmetic is
  outside the model. A one-dimensional tensor that \<open>torch.empty\<close> allocates is a list of
  cells, \<open>None\<close> until the loop writes them.
\<close>

text \<open>
  \<open>AgentPPO.update_policy\<close>, the discounted returns:
  \<^verbatim>\<open>
  all__old_v = torch.empty(max_memo, dtype=torch.float32, device=self.device)
  prev_old_v = 0  # old q value
  for i in range(max_memo - 1, -1, -1):  # could be more elegant
      all__old_v[i] = all_reward[i] + all_mask[i] * prev_old_v
      prev_old_v = all__old_v[i]
  \<close>
  The first argument of \<open>old_v_loop\<close> counts the iterations still to run: at \<open>Suc i\<close>
  the loop variable is \<open>i\<close>. Reading or writing a row outside a tensor raises.
\<close>

fun old_v_loop ::
  "nat \<Rightarrow> real list \<Rightarrow> real list \<Rightarrow> real option list \<Rightarrow> real \<Rightarrow> error + real option list" where
  "old_v_loop 0 all_reward all_mask all__old_v prev_old_v = Inr all__old_v"
| "old_v_loop (Suc i) all_reward all_mask all__old_v prev_old_v =
     (if \<not> i < length all_reward then Inl IndexError
      else if \<not> i < length all_mask then Inl IndexError
      else if \<not> i < length all__old_v then Inl IndexError
      else
        let v = all_reward ! i + all_mask ! i * prev_old_v
        in old_v_loop i all_reward all_mask (all__old_v[i := Some v]) v)"

definition get_old_v :: "nat \<Rightarrow> real list \<Rightarrow> real list \<Rightarrow> error + real option list" where
  "get_old_v max_memo all_reward all_mask =
     old_v_loop max_memo all_reward all_mask (replicate max_memo None) 0"

text \<open>
  \<open>AgentPPO.update_policy\<close>, the advantage before it is divided by its standard
  deviation:
  \<^verbatim>\<open>
  all__adv_v = all__old_v - (all_mask * all__new_v).squeeze(1)
  \<close>
  for tensors of one length (the three are columns and results over the same
  \<open>max_memo\<close> rows).
\<close>

definition ppo_adv_v :: "real list \<Rightarrow> real list \<Rightarrow> real list \<Rightarrow> real list" where
  "ppo_adv_v all__old_v all_mask all__new_v =
     map (\<lambda>i. all__old_v ! i - all_mask ! i * all__new_v ! i) [0..<length all__old_v]"

text \<open>
  \<open>AgentGaePPO.update_policy\<close>, returns and advantages in one loop:
  \<^verbatim>\<open>
  all__old_v = torch.empty(max_memo, dtype=torch.float32, device=self.device)
  all__adv_v = torch.empty(max_memo, dtype=torch.float32, device=self.device)

  prev_old_v = 0  # old q value
  prev_gae_v = 0  # GAE q value
  for i in range(max_memo - 1, -1, -1):  # could be more elegant
      all__old_v[i] = all_reward[i] + all_mask[i] * prev_old_v
      prev_old_v = all__old_v[i]
      all__adv_v[i] = all_reward[i] + all_mask[i] * prev_gae_v - all__new_v[i]
      prev_gae_v = all__new_v[i] + all__adv_v[i] * self.lambda_adv
  \<close>
  The result is the pair \<open>(all__old_v, all__adv_v)\<close>; the class sets
  \<open>lambda_adv = 0.98\<close>, here a parameter.
\<close>

fun gae_loop ::
  "nat \<Rightarrow> real \<Rightarrow> real list \<Rightarrow> real list \<Rightarrow> real list \<Rightarrow>
   real option list \<Rightarrow> real option list \<Rightarrow> real \<Rightarrow> real \<Rightarrow>
   error + real option list \<times> real option list" where
  "gae_loop 0 lambda_adv all_reward all_mask all__new_v all__old_v all__adv_v
      prev_old_v prev_gae_v = Inr (all__old_v, all__adv_v)"
| "gae_loop (Suc i) lambda_adv all_reward all_mask all__new_v all__old_v all__adv_v
      prev_old_v prev_gae_v =
     (if \<not> i < length all_reward then Inl IndexError
      else if \<not> i < length all_mask then Inl IndexError
      else if \<not> i < length all__old_v then Inl IndexError
      else if \<not> i < length all__new_v then Inl IndexError
      else if \<not> i < length all__adv_v then Inl IndexError
      else
        let v = all_reward ! i + all_mask ! i * prev_old_v;
            a = all_reward ! i + all_mask ! i * prev_gae_v - all__new_v ! i
        in gae_loop i lambda_adv all_reward all_mask all__new_v
             (all__old_v[i := Some v]) (all__adv_v[i := Some a])
             v (all__new_v ! i + a * lambda_adv))"

definition get_gae ::
  "nat \<Rightarrow> real \<Rightarrow> real list \<Rightarrow> real list \<Rightarrow> real list \<Rightarrow>
   error + real option list \<times> real option list" where
  "get_gae max_memo lambda_adv all_reward all_mask all__new_v =
     gae_loop max_memo lambda_adv all_reward all_mask all__new_v
       (replicate max_memo None) (replicate max_memo None) 0 0"

text \<open>
  The closed forms the loops are compared with. \<open>ret r m n k\<close> is the discounted
  return of the \<open>k\<close> last steps of a trajectory of \<open>n\<close> steps, that is the return at
  step \<open>n - k\<close>, with the value 0 beyond the last step. \<open>gae_prev lam r m v n k\<close> is
  \<open>prev_gae_v\<close> after the \<open>k\<close> last steps.
\<close>

fun ret :: "real list \<Rightarrow> real list \<Rightarrow> nat \<Rightarrow> nat \<Rightarrow> real" where
  "ret r m n 0 = 0"
| "ret r m n (Suc k) = r ! (n - Suc k) + m ! (n - Suc k) * ret r m n k"

fun gae_prev :: "real \<Rightarrow> real list \<Rightarrow> real list \<Rightarrow> real list \<Rightarrow> nat \<Rightarrow> nat \<Rightarrow> real" where
  "gae_prev lam r m v n 0 = 0"
| "gae_prev lam r m v n (Suc k) =
     v ! (n - Suc k) +
     (r ! (n - Suc k) + m ! (n - Suc k) * gae_prev lam r m v n k - v ! (n - Suc k)) * lam"

text \<open>
  The formula "plain return minus value", in the words of the specification: the
  plain discounted return of a step less the value estimate of that step.
\<close>

definition return_minus_value :: "real list \<Rightarrow> real list \<Rightarrow> real list \<Rightarrow> real list" where
  "return_minus_value r m v = map (\<lambda>i. ret r m (length r) (length r - i) - v ! i) [0..<length r]"

section \<open>Soft target update (AgentZoo.py)\<close>

text \<open>
  \<^verbatim>\<open>
  def soft_target_update(target, current, tau=5e-3):
      for target_param, param in zip(target.parameters(), current.parameters()):
          target_param.data.copy_(tau * param.data + (1.0 - tau) * target_param.data)
  \<close>
  A network is given by the list of its parameter tensors. A tensor is a function from
  its index type to its elements, so the two tensors of a pair have one shape (the
  target is a deep copy of the online network). \<open>zip\<close> stops at the shorter list: the
  parameters of the target beyond it are not touched. The result is the target's new
  parameter list.
\<close>

definition soft_target_update ::
  "('i \<Rightarrow> real) list \<Rightarrow> ('i \<Rightarrow> real) list \<Rightarrow> real \<Rightarrow> ('i \<Rightarrow> real) list" where
  "soft_target_update target current tau =
     map (\<lambda>(target_param, param). (\<lambda>i. tau * param i + (1 - tau) * target_param i))
       (zip target current)
     @ drop (length current) target"

section \<open>The clipped surrogate objective (AgentZoo.py)\<close>

text \<open>
  \<open>torch.clamp(x, lo, hi)\<close> is \<open>min(max(x, lo), hi)\<close>.
  \<^verbatim>\<open>
  obj_surrogate1 = advantage * ratio
  obj_surrogate2 = advantage * ratio.clamp(1 - self.clip, 1 + self.clip)
  obj_actor = -torch.min(obj_surrogate1, obj_surrogate2).mean()
  \<close>
  The three functions are the terms for one sample of the batch; \<open>surrogate_min\<close> is
  the element that \<open>torch.min\<close> selects. The class sets \<open>clip = 0.25\<close>, here a
  parameter.
\<close>

definition clamp :: "real \<Rightarrow> real \<Rightarrow> real \<Rightarrow> real" where
  "clamp x lo hi = min (max x lo) hi"

definition obj_surrogate1 :: "real \<Rightarrow> real \<Rightarrow> real" where
  "obj_surrogate1 advantage ratio = advantage * ratio"

definition obj_surrogate2 :: "real \<Rightarrow> real \<Rightarrow> real \<Rightarrow> real" where
  "obj_surrogate2 clip advantage ratio = advantage * clamp ratio (1 - clip) (1 + clip)"

definition surrogate_min :: "real \<Rightarrow> real \<Rightarrow> real \<Rightarrow> real" where
  "surrogate_min clip advantage ratio =
     min (obj_surrogate1 advantage ratio) (obj_surrogate2 clip advantage ratio)"

section \<open>The training loop (Main.py)\<close>

text \<open>
  \<open>class Evaluator\<close>, the fields that \<open>evaluate_and_save\<close> changes, and the target.
  \<open>r_max\<close> starts at \<open>-np.inf\<close>, here \<open>None\<close>. \<open>used_time\<close> is \<open>None\<close> until an
  evaluation finds \<open>r_max > target_reward\<close>. The recorder list and the printing are
  left out.
\<close>

record Evaluator =
  r_max :: "real option"
  total_step :: int
  used_time :: "int option"
  target_reward :: real

definition Evaluator_init :: "real \<Rightarrow> Evaluator" where
  "Evaluator_init target = \<lparr>r_max = None, total_step = 0, used_time = None, target_reward = target\<rparr>"

text \<open>
  \<^verbatim>\<open>
  def evaluate_and_save(self, env, act, device, steps, obj_a, obj_c):
      if_save = False
      reward_list = [get_episode_return(env, act, device) for _ in range(self.eva_times)]

      r_avg = np.average(reward_list)  # episode return average
      if r_avg > self.r_max:  # check final
          self.r_max = r_avg
          if_save = True
      ...
      self.total_step += steps
      ...
      if_solve = bool(self.r_max > self.target_reward)  # check if_solve
      if if_solve and self.used_time is None:
          self.used_time = int(time.time() - self.start_time)
          print(...)
      ...
      return if_save
  \<close>
  The average return of the evaluation episodes, \<open>r_avg\<close>, and the clock reading,
  \<open>now\<close>, come from outside. \<open>if_solve\<close> is a local variable of the method; the
  method returns \<open>if_save\<close>.
\<close>

definition evaluate_and_save :: "Evaluator \<Rightarrow> real \<Rightarrow> int \<Rightarrow> int \<Rightarrow> Evaluator \<times> bool" where
  "evaluate_and_save ev r_avg steps now =
     (let if_save = (case r_max ev of None \<Rightarrow> True | Some x \<Rightarrow> r_avg > x);
          ev1 = (if if_save then ev\<lparr>r_max := Some r_avg\<rparr> else ev);
          ev2 = ev1\<lparr>total_step := total_step ev1 + steps\<rparr>;
          if_solve = (case r_max ev2 of None \<Rightarrow> False | Some x \<Rightarrow> x > target_reward ev2);
          ev3 = (if if_solve \<and> used_time ev2 = None then ev2\<lparr>used_time := Some now\<rparr> else ev2)
      in (ev3, if_save))"

text \<open>
  \<^verbatim>\<open>
  total_step = steps

  if_solve = False
  while not ((if_break_early and if_solve) or total_step > break_step
             or os.path.exists(f'{cwd}/stop')):
      with torch.no_grad():  # speed up running
          steps = agent.update_buffer(env, buffer, max_step, reward_scale, gamma)
      total_step += steps

      buffer.update__now_len__before_sample()
      agent.update_policy(buffer, max_step, batch_size, repeat_times)

      with torch.no_grad():  # speed up running
          evaluator.evaluate_and_save(env_eval, agent.act, agent.device, steps,
                                      agent.obj_a, agent.obj_c)
  \<close>
  What the loop takes from outside is given per iteration \<open>k\<close> (counted from 0):
  \<open>stop_exists k\<close>, whether the stop file exists when the condition is checked for the
  \<open>k\<close>-th time; \<open>steps_of k\<close>, what \<open>update_buffer\<close> returns; \<open>r_avg_of k\<close> and
  \<open>clock k\<close>, the average return and the clock of the evaluation. The loop may run
  forever: \<open>None\<close> is the run that does not return. The result is the number of
  iterations run, \<open>total_step\<close>, the local \<open>if_solve\<close> and the evaluator.
\<close>

partial_function (option) train_loop ::
  "bool \<Rightarrow> int \<Rightarrow> (nat \<Rightarrow> bool) \<Rightarrow> (nat \<Rightarrow> int) \<Rightarrow> (nat \<Rightarrow> real) \<Rightarrow> (nat \<Rightarrow> int) \<Rightarrow>
   nat \<Rightarrow> int \<Rightarrow> bool \<Rightarrow> Evaluator \<Rightarrow> (nat \<times> int \<times> bool \<times> Evaluator) option" where
  "train_loop if_break_early break_step stop_exists steps_of r_avg_of clock
      k total_steps if_solve evaluator =
     (if (if_break_early \<and> if_solve) \<or> total_steps > break_step \<or> stop_exists k
      then Some (k, total_steps, if_solve, evaluator)
      else
        let steps = steps_of k;
            total_steps' = total_steps + steps;
            evaluator' = fst (evaluate_and_save evaluator (r_avg_of k) steps (clock k))
        in train_loop if_break_early break_step stop_exists steps_of r_avg_of clock
             (Suc k) total_steps' if_solve evaluator')"

text \<open>
  \<open>train_and_evaluate\<close> from the point where the loop starts: \<open>steps\<close> is 0 for an
  on-policy agent and what \<open>explore_before_train\<close> returned otherwise.
\<close>

definition train_and_evaluate ::
  "bool \<Rightarrow> int \<Rightarrow> real \<Rightarrow> (nat \<Rightarrow> bool) \<Rightarrow> (nat \<Rightarrow> int) \<Rightarrow> (nat \<Rightarrow> real) \<Rightarrow> (nat \<Rightarrow> int) \<Rightarrow>
   int \<Rightarrow> (nat \<times> int \<times> bool \<times> Evaluator) option" where
  "train_and_evaluate if_break_early break_step target stop_exists steps_of r_avg_of clock steps =
     train_loop if_break_early break_step stop_exists steps_of r_avg_of clock
       0 steps False (Evaluator_init target)"

section \<open>The policy updates (AgentZoo.py)\<close>
























section \<open>The on-policy collect phase (AgentZoo.py)\<close>







section \<open>Properties of the replay buffers\<close>

lemma cursor_inv_refresh: "cursor_inv b \<Longrightarrow> cursor_inv (update__now_len__before_sample b)"
  by (simp add: cursor_inv_def update__now_len__before_sample_def)

lemma cursor_inv_reset: "cursor_inv b \<Longrightarrow> cursor_inv (empty_memories__before_explore b)"
  by (auto simp: cursor_inv_def empty_memories__before_explore_def)

lemma visible_inv_refresh:
  "cursor_inv b \<Longrightarrow> visible_inv b \<Longrightarrow> visible_inv (update__now_len__before_sample b)"
  by (auto simp: cursor_inv_def visible_inv_def update__now_len__before_sample_def)

lemma visible_inv_reset: "visible_inv b \<Longrightarrow> visible_inv (empty_memories__before_explore b)"
  by (auto simp: visible_inv_def empty_memories__before_explore_def)

lemma cursor_inv_append_GPU:
  assumes "cursor_inv b"
  shows "\<exists>b'. ReplayBufferGPU_append_memo b s x = Inr b' \<and> cursor_inv b' \<and> max_len b' = max_len b"
  using assms
  by (auto simp: cursor_inv_def ReplayBufferGPU_append_memo_def Let_def)

lemma visible_inv_append_GPU:
  assumes "cursor_inv b" "visible_inv b" "ReplayBufferGPU_append_memo b s x = Inr b'"
  shows "visible_inv b'"
  using assms
  by (auto simp: cursor_inv_def visible_inv_def ReplayBufferGPU_append_memo_def Let_def
      nth_list_update less_Suc_eq split: if_splits)

lemma cursor_inv_append_CPU:
  assumes "cursor_inv b"
  shows "\<exists>b'. ReplayBufferCPU_append_memo b s x = Inr b' \<and> cursor_inv b' \<and> max_len b' = max_len b"
  using assms
  by (auto simp: cursor_inv_def ReplayBufferCPU_append_memo_def Let_def)

lemma inv_init_GPU:
  "0 < cap \<Longrightarrow> \<exists>b0. ReplayBufferGPU_init cap = Inr b0 \<and> cursor_inv b0 \<and> visible_inv b0 \<and> max_len b0 = nat cap"
  by (simp add: ReplayBufferGPU_init_def cursor_inv_def visible_inv_def)

lemma inv_init_CPU:
  "0 < cap \<Longrightarrow> \<exists>b0. ReplayBufferCPU_init cap ad = Inr b0 \<and> cursor_inv b0 \<and> max_len b0 = nat cap"
  by (simp add: ReplayBufferCPU_init_def cursor_inv_def)

lemma inv_run_GPU:
  "cursor_inv b \<Longrightarrow> visible_inv b \<Longrightarrow>
   \<exists>b'. run_GPU b ops = Inr b' \<and> cursor_inv b' \<and> visible_inv b' \<and> max_len b' = max_len b"
proof (induction ops arbitrary: b)
  case Nil
  then show ?case by simp
next
  case (Cons a ops)
  show ?case
  proof (cases a)
    case (Append s x)
    from cursor_inv_append_GPU[OF Cons.prems(1), of s x] obtain b1 where
      b1: "ReplayBufferGPU_append_memo b s x = Inr b1" "cursor_inv b1" "max_len b1 = max_len b"
      by blast
    have "visible_inv b1"
      using visible_inv_append_GPU[OF Cons.prems b1(1)] .
    from Cons.IH[OF b1(2) this] b1 Append show ?thesis by auto
  next
    case Refresh
    from Cons.IH[OF cursor_inv_refresh[OF Cons.prems(1)] visible_inv_refresh[OF Cons.prems]]
      Refresh show ?thesis
      by (auto simp: update__now_len__before_sample_def)
  next
    case Reset
    from Cons.IH[OF cursor_inv_reset[OF Cons.prems(1)] visible_inv_reset[OF Cons.prems(2)]]
      Reset show ?thesis
      by (auto simp: empty_memories__before_explore_def)
  qed
qed


lemma refreshed:
  "cursor_inv b \<Longrightarrow> (let r = update__now_len__before_sample b in
       (now_len r = max_len r \<longleftrightarrow> if_full r) \<and> (if_full r \<or> now_len r = next_idx r))"
  by (auto simp: cursor_inv_def update__now_len__before_sample_def)

lemma rotate_Suc_update:
  assumes "i < length xs"
  shows "rotate (Suc i) (xs[i := e]) = tl (rotate i xs) @ [e]"
proof -
  have a: "rotate i xs = drop i xs @ take i xs"
    using assms by (simp add: rotate_drop_take)
  have b: "rotate i (xs[i := e]) = (e # drop (Suc i) xs) @ take i xs"
    using assms by (simp add: rotate_drop_take drop_update_swap Cons_nth_drop_Suc upd_conv_take_nth_drop)
  have c: "drop i xs = xs ! i # drop (Suc i) xs"
    using assms by (simp add: Cons_nth_drop_Suc)
  show ?thesis
    by (simp add: a b c)
qed

lemma window_append_GPU:
  assumes "cursor_inv b" "ReplayBufferGPU_append_memo b s x = Inr b'"
  shows "rotate (next_idx b') (all_state b') = tl (rotate (next_idx b) (all_state b)) @ [Some s]"
    and "rotate (next_idx b') (all_other b') = tl (rotate (next_idx b) (all_other b)) @ [Some x]"
    and "if_full b' \<longleftrightarrow> if_full b \<or> Suc (next_idx b) = max_len b"
    and "next_idx b' = Suc (next_idx b) mod max_len b"
proof -
  let ?i = "next_idx b"
  have i: "?i < length (all_state b)" "?i < length (all_other b)" "?i < max_len b"
    using assms(1) by (simp_all add: cursor_inv_def)
  have len: "length (all_state b) = max_len b" "length (all_other b) = max_len b"
    using assms(1) by (simp_all add: cursor_inv_def)
  show "rotate (next_idx b') (all_state b') = tl (rotate ?i (all_state b)) @ [Some s]"
  proof (cases "Suc ?i = max_len b")
    case True
    then have "next_idx b' = 0" "all_state b' = (all_state b)[?i := Some s]"
      using assms(2) i by (auto simp: ReplayBufferGPU_append_memo_def Let_def)
    moreover have "rotate (Suc ?i) ((all_state b)[?i := Some s]) = (all_state b)[?i := Some s]"
      using True len by (metis length_list_update rotate_id mod_self)
    ultimately show ?thesis
      using rotate_Suc_update[OF i(1), of "Some s"] by simp
  next
    case False
    then have "next_idx b' = Suc ?i" "all_state b' = (all_state b)[?i := Some s]"
      using assms(2) i by (auto simp: ReplayBufferGPU_append_memo_def Let_def)
    then show ?thesis
      using rotate_Suc_update[OF i(1), of "Some s"] by simp
  qed
  show "rotate (next_idx b') (all_other b') = tl (rotate ?i (all_other b)) @ [Some x]"
  proof (cases "Suc ?i = max_len b")
    case True
    then have "next_idx b' = 0" "all_other b' = (all_other b)[?i := Some x]"
      using assms(2) i by (auto simp: ReplayBufferGPU_append_memo_def Let_def)
    moreover have "rotate (Suc ?i) ((all_other b)[?i := Some x]) = (all_other b)[?i := Some x]"
      using True len by (metis length_list_update rotate_id mod_self)
    ultimately show ?thesis
      using rotate_Suc_update[OF i(2), of "Some x"] by simp
  next
    case False
    then have "next_idx b' = Suc ?i" "all_other b' = (all_other b)[?i := Some x]"
      using assms(2) i by (auto simp: ReplayBufferGPU_append_memo_def Let_def)
    then show ?thesis
      using rotate_Suc_update[OF i(2), of "Some x"] by simp
  qed
  show "if_full b' \<longleftrightarrow> if_full b \<or> Suc (next_idx b) = max_len b"
    using assms(2) i by (auto simp: ReplayBufferGPU_append_memo_def Let_def)
  show "next_idx b' = Suc (next_idx b) mod max_len b"
  proof (cases "Suc ?i = max_len b")
    case True
    then show ?thesis
      using assms(2) i by (auto simp: ReplayBufferGPU_append_memo_def Let_def)
  next
    case False
    then have "Suc ?i < max_len b" using i(3) by simp
    then show ?thesis
      using assms(2) i by (auto simp: ReplayBufferGPU_append_memo_def Let_def)
  qed
qed

lemma run_appends_GPU:
  assumes "cursor_inv b"
  shows "\<exists>b'. run_GPU b (appends es) = Inr b' \<and> cursor_inv b' \<and> max_len b' = max_len b \<and>
           now_len b' = now_len b \<and>
           rotate (next_idx b') (all_state b') =
             drop (length es) (rotate (next_idx b) (all_state b) @ map (Some \<circ> fst) es) \<and>
           rotate (next_idx b') (all_other b') =
             drop (length es) (rotate (next_idx b) (all_other b) @ map (Some \<circ> snd) es) \<and>
           (if_full b' \<longleftrightarrow> if_full b \<or> max_len b \<le> next_idx b + length es)"
  using assms
proof (induction es arbitrary: b)
  case Nil
  then show ?case by (auto simp: appends_def cursor_inv_def)
next
  case (Cons e es)
  obtain s x where e: "e = (s, x)" by (cases e)
  from cursor_inv_append_GPU[OF Cons.prems, of s x] obtain b1 where
    b1: "ReplayBufferGPU_append_memo b s x = Inr b1" "cursor_inv b1" "max_len b1 = max_len b"
    by blast
  note w = window_append_GPU[OF Cons.prems b1(1)]
  have nl: "now_len b1 = now_len b"
    using b1(1) by (auto simp: ReplayBufferGPU_append_memo_def Let_def split: if_splits)
  from Cons.IH[OF b1(2)] obtain b' where
    b': "run_GPU b1 (appends es) = Inr b'" "cursor_inv b'" "max_len b' = max_len b1"
      "now_len b' = now_len b1"
      "rotate (next_idx b') (all_state b') =
         drop (length es) (rotate (next_idx b1) (all_state b1) @ map (Some \<circ> fst) es)"
      "rotate (next_idx b') (all_other b') =
         drop (length es) (rotate (next_idx b1) (all_other b1) @ map (Some \<circ> snd) es)"
      "if_full b' \<longleftrightarrow> if_full b1 \<or> max_len b1 \<le> next_idx b1 + length es"
    by blast
  have ne: "rotate (next_idx b) (all_state b) \<noteq> []" "rotate (next_idx b) (all_other b) \<noteq> []"
    using Cons.prems by (auto simp: cursor_inv_def)
  have run: "run_GPU b (appends (e # es)) = Inr b'"
    using b1(1) b'(1) e by (simp add: appends_def)
  have st: "rotate (next_idx b') (all_state b') =
      drop (length (e # es)) (rotate (next_idx b) (all_state b) @ map (Some \<circ> fst) (e # es))"
    using b'(5) w(1) ne(1) e
    by (cases "rotate (next_idx b) (all_state b)") simp_all
  have ot: "rotate (next_idx b') (all_other b') =
      drop (length (e # es)) (rotate (next_idx b) (all_other b) @ map (Some \<circ> snd) (e # es))"
    using b'(6) w(2) ne(2) e
    by (cases "rotate (next_idx b) (all_other b)") simp_all
  have lt: "next_idx b < max_len b" using Cons.prems by (simp add: cursor_inv_def)
  have full: "if_full b' \<longleftrightarrow> if_full b \<or> max_len b \<le> next_idx b + length (e # es)"
  proof (cases "Suc (next_idx b) = max_len b")
    case True
    then show ?thesis using b'(7) w(3) by auto
  next
    case False
    then have "Suc (next_idx b) mod max_len b = Suc (next_idx b)" using lt by simp
    then show ?thesis using b'(7) w(3,4) b1(3) False by auto
  qed
  show ?case
  proof (intro exI[of _ b'] conjI)
    show "run_GPU b (appends (e # es)) = Inr b'" by (rule run)
    show "cursor_inv b'" by (rule b'(2))
    show "max_len b' = max_len b" using b'(3) b1(3) by simp
    show "now_len b' = now_len b" using b'(4) nl by simp
    show "rotate (next_idx b') (all_state b') =
      drop (length (e # es)) (rotate (next_idx b) (all_state b) @ map (Some \<circ> fst) (e # es))"
      by (rule st)
    show "rotate (next_idx b') (all_other b') =
      drop (length (e # es)) (rotate (next_idx b) (all_other b) @ map (Some \<circ> snd) (e # es))"
      by (rule ot)
    show "if_full b' \<longleftrightarrow> if_full b \<or> max_len b \<le> next_idx b + length (e # es)"
      by (rule full)
  qed
qed

lemma run_GPU_append:
  "run_GPU b (xs @ ys) = (case run_GPU b xs of Inl e \<Rightarrow> Inl e | Inr b' \<Rightarrow> run_GPU b' ys)"
proof (induction xs arbitrary: b)
  case Nil
  then show ?case by simp
next
  case (Cons a xs)
  then show ?case by (cases a) (simp_all split: sum.splits)
qed

text \<open>
  The off-policy buffer does what claim C1 says: after at least \<open>capacity\<close> appends and
  a refresh, the visible length is the capacity and the visible rows, read from the
  write cursor, are the last \<open>capacity\<close> appended entries, oldest first.
\<close>

lemma ReplayBufferGPU_keeps_last_capacity:
  fixes es :: "('s \<times> 'o) list"
  assumes "0 < cap" "nat cap \<le> length es"
  shows "\<exists>b0 b. (ReplayBufferGPU_init cap :: error + ('s, 'o) ReplayBufferGPU) = Inr b0 \<and>
           run_GPU b0 (appends es @ [Refresh]) = Inr b \<and>
           now_len b = nat cap \<and>
           visible_states b = map (Some \<circ> fst) (drop (length es - nat cap) es) \<and>
           visible_others b = map (Some \<circ> snd) (drop (length es - nat cap) es)"
proof -
  from inv_init_GPU[OF assms(1)] obtain b0 :: "('s, 'o) ReplayBufferGPU" where
    b0: "ReplayBufferGPU_init cap = Inr b0" "cursor_inv b0" "max_len b0 = nat cap"
    by blast
  have fresh: "next_idx b0 = 0" "all_state b0 = replicate (nat cap) None"
    "all_other b0 = replicate (nat cap) None" "\<not> if_full b0"
    using b0(1) assms(1) by (auto simp: ReplayBufferGPU_init_def)
  from run_appends_GPU[OF b0(2), of es] obtain b1 where
    b1: "run_GPU b0 (appends es) = Inr b1" "cursor_inv b1" "max_len b1 = max_len b0"
      "rotate (next_idx b1) (all_state b1) =
         drop (length es) (rotate (next_idx b0) (all_state b0) @ map (Some \<circ> fst) es)"
      "rotate (next_idx b1) (all_other b1) =
         drop (length es) (rotate (next_idx b0) (all_other b0) @ map (Some \<circ> snd) es)"
      "if_full b1 \<longleftrightarrow> if_full b0 \<or> max_len b0 \<le> next_idx b0 + length es"
    by blast
  let ?r = "update__now_len__before_sample b1"
  have full: "if_full b1" using b1(6) fresh b0(3) assms(2) by simp
  have len: "length (all_state b1) = nat cap" "length (all_other b1) = nat cap"
    using b1(2,3) b0(3) by (simp_all add: cursor_inv_def)
  have run: "run_GPU b0 (appends es @ [Refresh]) = Inr ?r"
    by (simp add: run_GPU_append b1(1))
  have nl: "now_len ?r = nat cap"
    using full b1(3) b0(3) by (simp add: update__now_len__before_sample_def)
  have vs: "visible_states ?r = map (Some \<circ> fst) (drop (length es - nat cap) es)"
    using b1(4) fresh len assms(2) full b1(3) b0(3)
    by (simp add: visible_states_def update__now_len__before_sample_def drop_map)
  have vo: "visible_others ?r = map (Some \<circ> snd) (drop (length es - nat cap) es)"
    using b1(5) fresh len assms(2) full b1(3) b0(3)
    by (simp add: visible_others_def update__now_len__before_sample_def drop_map)
  show ?thesis
    using b0(1) run nl vs vo by blast
qed

text \<open>
  Claim C1 on the on-policy buffer: three appends into a \<open>ReplayBufferCPU\<close> of capacity
  2, then a refresh. \<open>append_memo\<close> set \<open>is_full\<close> when it wrapped, the refresh reads
  \<open>if_full\<close>, which is still unset: the visible length is 1, not the capacity 2, and
  the visible content is the newest entry alone, not the last two.
\<close>

theorem C1_ReplayBufferCPU_overflow:
  "\<exists>b0 b. (ReplayBufferCPU_init 2 1 :: error + (nat, nat) ReplayBufferCPU) = Inr b0 \<and>
     run_CPU b0 (appends [(10, 11), (20, 21), (30, 31)] @ [Refresh]) = Inr b \<and>
     max_len b = 2 \<and> now_len b = 1 \<and> \<not> if_full b \<and> is_full b \<and>
     visible_states b = [Some 30] \<and> visible_others b = [Some 31]"
  by (simp add: ReplayBufferCPU_init_def ReplayBufferCPU_append_memo_def Let_def appends_def
      update__now_len__before_sample_def visible_states_def visible_others_def
      numeral_2_eq_2)

text \<open>
  The same three appends and the refresh on a \<open>ReplayBufferGPU\<close> of capacity 2: the
  visible length is 2 and the visible content is the last two entries, oldest first.
\<close>

lemma ReplayBufferGPU_overflow_example:
  "\<exists>b0 b. (ReplayBufferGPU_init 2 :: error + (nat, nat) ReplayBufferGPU) = Inr b0 \<and>
     run_GPU b0 (appends [(10, 11), (20, 21), (30, 31)] @ [Refresh]) = Inr b \<and>
     max_len b = 2 \<and> now_len b = 2 \<and> if_full b \<and>
     visible_states b = [Some 20, Some 30] \<and> visible_others b = [Some 21, Some 31]"
  by (simp add: ReplayBufferGPU_init_def ReplayBufferGPU_append_memo_def Let_def appends_def
      update__now_len__before_sample_def visible_states_def visible_others_def
      numeral_2_eq_2)

text \<open>
  No operation of a \<open>ReplayBufferCPU\<close> sets \<open>if_full\<close>: after a refresh its visible
  length is always the write cursor.
\<close>

lemma CPU_if_full_never_set:
  "\<not> if_full b \<Longrightarrow> run_CPU b ops = Inr b' \<Longrightarrow> \<not> if_full b'"
proof (induction ops arbitrary: b)
  case Nil
  then show ?case by simp
next
  case (Cons a ops)
  show ?case
  proof (cases a)
    case (Append s x)
    with Cons.prems obtain b1 where
      b1: "ReplayBufferCPU_append_memo b s x = Inr b1" "run_CPU b1 ops = Inr b'"
      by (auto split: sum.splits)
    have "\<not> if_full b1"
      using b1(1) Cons.prems(1)
      by (auto simp: ReplayBufferCPU_append_memo_def Let_def split: if_splits)
    then show ?thesis using Cons.IH b1(2) by blast
  next
    case Refresh
    then show ?thesis
      using Cons.IH[of "update__now_len__before_sample b"] Cons.prems
      by (simp add: update__now_len__before_sample_def)
  next
    case Reset
    then show ?thesis
      using Cons.IH[of "empty_memories__before_explore b"] Cons.prems
      by (simp add: empty_memories__before_explore_def)
  qed
qed

subsection \<open>The cursor, the full flag and the visible length\<close>

lemma fill_run_GPU:
  assumes "cursor_inv b" "next_idx b = n mod max_len b" "if_full b \<longleftrightarrow> max_len b \<le> n"
  shows "\<exists>b'. run_GPU b ops = Inr b' \<and> cursor_inv b' \<and> max_len b' = max_len b \<and>
           next_idx b' = fill_count n ops mod max_len b \<and>
           (if_full b' \<longleftrightarrow> max_len b \<le> fill_count n ops)"
  using assms
proof (induction ops arbitrary: b n)
  case Nil
  then show ?case by simp
next
  case (Cons a ops)
  have pos: "0 < max_len b" "next_idx b < max_len b"
    using Cons.prems(1) by (auto simp: cursor_inv_def)
  show ?case
  proof (cases a)
    case (Append s x)
    from cursor_inv_append_GPU[OF Cons.prems(1), of s x] obtain b1 where
      b1: "ReplayBufferGPU_append_memo b s x = Inr b1" "cursor_inv b1" "max_len b1 = max_len b"
      by blast
    note w = window_append_GPU(3,4)[OF Cons.prems(1) b1(1)]
    have ni: "next_idx b1 = Suc n mod max_len b1"
      using w(2) Cons.prems(2) b1(3) by (simp add: mod_Suc_eq)
    have fu: "if_full b1 \<longleftrightarrow> max_len b1 \<le> Suc n"
    proof (cases "max_len b \<le> n")
      case True
      then show ?thesis using w(1) Cons.prems(3) b1(3) by simp
    next
      case False
      then have "n mod max_len b = n" by simp
      then show ?thesis using w(1) Cons.prems(2,3) b1(3) False by auto
    qed
    from Cons.IH[OF b1(2) ni fu] b1 Append show ?thesis by auto
  next
    case Refresh
    have "cursor_inv (update__now_len__before_sample b)"
      "next_idx (update__now_len__before_sample b) = n mod max_len (update__now_len__before_sample b)"
      "if_full (update__now_len__before_sample b) \<longleftrightarrow> max_len (update__now_len__before_sample b) \<le> n"
      using Cons.prems cursor_inv_refresh[OF Cons.prems(1)]
      by (simp_all add: update__now_len__before_sample_def)
    from Cons.IH[OF this] Refresh show ?thesis
      by (simp add: update__now_len__before_sample_def)
  next
    case Reset
    have "cursor_inv (empty_memories__before_explore b)"
      "next_idx (empty_memories__before_explore b) = 0 mod max_len (empty_memories__before_explore b)"
      "if_full (empty_memories__before_explore b) \<longleftrightarrow> max_len (empty_memories__before_explore b) \<le> 0"
      using pos cursor_inv_reset[OF Cons.prems(1)]
      by (simp_all add: empty_memories__before_explore_def)
    from Cons.IH[OF this] Reset show ?thesis
      by (simp add: empty_memories__before_explore_def)
  qed
qed

lemma append_CPU_cursor:
  assumes "cursor_inv b" "ReplayBufferCPU_append_memo b s x = Inr b'"
  shows "next_idx b' = Suc (next_idx b) mod max_len b"
proof (cases "Suc (next_idx b) = max_len b")
  case True
  then show ?thesis
    using assms by (auto simp: ReplayBufferCPU_append_memo_def Let_def cursor_inv_def split: if_splits)
next
  case False
  then have "Suc (next_idx b) < max_len b" using assms(1) by (simp add: cursor_inv_def)
  then show ?thesis
    using assms by (auto simp: ReplayBufferCPU_append_memo_def Let_def cursor_inv_def split: if_splits)
qed

lemma fill_run_CPU:
  assumes "cursor_inv b" "next_idx b = n mod max_len b"
  shows "\<exists>b'. run_CPU b ops = Inr b' \<and> cursor_inv b' \<and> max_len b' = max_len b \<and>
           next_idx b' = fill_count n ops mod max_len b"
  using assms
proof (induction ops arbitrary: b n)
  case Nil
  then show ?case by simp
next
  case (Cons a ops)
  have pos: "0 < max_len b"
    using Cons.prems(1) by (auto simp: cursor_inv_def)
  show ?case
  proof (cases a)
    case (Append s x)
    from cursor_inv_append_CPU[OF Cons.prems(1), of s x] obtain b1 where
      b1: "ReplayBufferCPU_append_memo b s x = Inr b1" "cursor_inv b1" "max_len b1 = max_len b"
      by blast
    have ni: "next_idx b1 = Suc n mod max_len b1"
      using append_CPU_cursor[OF Cons.prems(1) b1(1)] Cons.prems(2) b1(3) by (simp add: mod_Suc_eq)
    from Cons.IH[OF b1(2) ni] b1 Append show ?thesis by auto
  next
    case Refresh
    have "cursor_inv (update__now_len__before_sample b)"
      "next_idx (update__now_len__before_sample b) = n mod max_len (update__now_len__before_sample b)"
      using Cons.prems cursor_inv_refresh[OF Cons.prems(1)]
      by (simp_all add: update__now_len__before_sample_def)
    from Cons.IH[OF this] Refresh show ?thesis
      by (simp add: update__now_len__before_sample_def)
  next
    case Reset
    have "cursor_inv (empty_memories__before_explore b)"
      "next_idx (empty_memories__before_explore b) = 0 mod max_len (empty_memories__before_explore b)"
      using pos cursor_inv_reset[OF Cons.prems(1)]
      by (simp_all add: empty_memories__before_explore_def)
    from Cons.IH[OF this] Reset show ?thesis
      by (simp add: empty_memories__before_explore_def)
  qed
qed

text \<open>
  Claim C2, amended. For a capacity above 0 and either buffer class, every sequence of
  appends, refreshes and resets from the constructor runs without an exception and
  leaves the write cursor below the capacity. In a \<open>ReplayBufferGPU\<close> the full flag is
  set exactly when at least \<open>capacity\<close> entries have been appended since the
  construction or the last reset; in the state that \<open>update__now_len__before_sample\<close>
  produces, the visible length equals the capacity exactly when the flag is set, and
  otherwise equals the write cursor, which is the number of entries appended. In a
  \<open>ReplayBufferCPU\<close> to which fewer than \<open>capacity\<close> entries have been appended since
  the construction or the last reset, the refresh makes the visible length the write
  cursor, which is the number of entries appended and lies below the capacity.
\<close>

theorem C2_amended:
  fixes ops :: "('s, 'o) buffer_op list"
  assumes "0 < cap"
  shows "(\<exists>b0 b. (ReplayBufferGPU_init cap :: error + ('s, 'o) ReplayBufferGPU) = Inr b0 \<and>
            run_GPU b0 ops = Inr b \<and> max_len b = nat cap \<and> next_idx b < max_len b \<and>
            (if_full b \<longleftrightarrow> nat cap \<le> fill_count 0 ops) \<and>
            (let r = update__now_len__before_sample b in
               (now_len r = max_len r \<longleftrightarrow> if_full r) \<and>
               (if_full r \<or> now_len r = next_idx r \<and> now_len r = fill_count 0 ops)))
       \<and> (\<exists>b0 b. (ReplayBufferCPU_init cap adim :: error + ('s, 'o) ReplayBufferCPU) = Inr b0 \<and>
            run_CPU b0 ops = Inr b \<and> max_len b = nat cap \<and> next_idx b < max_len b \<and>
            (nat cap \<le> fill_count 0 ops \<or>
             (let r = update__now_len__before_sample b in
                now_len r = next_idx r \<and> now_len r = fill_count 0 ops \<and> now_len r < max_len r)))"
proof
  have b0: "(ReplayBufferGPU_init cap :: error + ('s, 'o) ReplayBufferGPU) =
      Inr \<lparr>max_len = nat cap, now_len = 0, next_idx = 0, if_full = False,
           all_state = replicate (nat cap) None, all_other = replicate (nat cap) None\<rparr>"
    (is "_ = Inr ?b0")
    using assms by (simp add: ReplayBufferGPU_init_def)
  have i0: "cursor_inv ?b0" "next_idx ?b0 = 0 mod max_len ?b0" "if_full ?b0 \<longleftrightarrow> max_len ?b0 \<le> 0"
    using assms by (simp_all add: cursor_inv_def)
  from fill_run_GPU[OF i0, of ops] obtain b where
    b: "run_GPU ?b0 ops = Inr b" "cursor_inv b" "max_len b = nat cap"
    "next_idx b = fill_count 0 ops mod nat cap" "if_full b \<longleftrightarrow> nat cap \<le> fill_count 0 ops"
    by auto
  have lt: "next_idx b < max_len b" using b(2) by (simp add: cursor_inv_def)
  have r: "let r = update__now_len__before_sample b in
               (now_len r = max_len r \<longleftrightarrow> if_full r) \<and>
               (if_full r \<or> now_len r = next_idx r \<and> now_len r = fill_count 0 ops)"
    using lt b(3,4,5) by (auto simp: update__now_len__before_sample_def Let_def)
  show "\<exists>b0 b. (ReplayBufferGPU_init cap :: error + ('s, 'o) ReplayBufferGPU) = Inr b0 \<and>
            run_GPU b0 ops = Inr b \<and> max_len b = nat cap \<and> next_idx b < max_len b \<and>
            (if_full b \<longleftrightarrow> nat cap \<le> fill_count 0 ops) \<and>
            (let r = update__now_len__before_sample b in
               (now_len r = max_len r \<longleftrightarrow> if_full r) \<and>
               (if_full r \<or> now_len r = next_idx r \<and> now_len r = fill_count 0 ops))"
    using b0 b(1,3,5) lt r by blast
next
  have b0: "(ReplayBufferCPU_init cap adim :: error + ('s, 'o) ReplayBufferCPU) =
      Inr \<lparr>max_len = nat cap, now_len = 0, next_idx = 0, if_full = False,
           all_state = replicate (nat cap) None, all_other = replicate (nat cap) None,
           is_full = True, action_dim = adim\<rparr>"
    (is "_ = Inr ?b0")
    using assms by (simp add: ReplayBufferCPU_init_def)
  have i0: "cursor_inv ?b0" "next_idx ?b0 = 0 mod max_len ?b0"
    using assms by (simp_all add: cursor_inv_def)
  from fill_run_CPU[OF i0, of ops] obtain b where
    b: "run_CPU ?b0 ops = Inr b" "cursor_inv b" "max_len b = nat cap"
    "next_idx b = fill_count 0 ops mod nat cap"
    by auto
  have nf: "\<not> if_full b" using CPU_if_full_never_set[OF _ b(1)] by simp
  have lt: "next_idx b < max_len b" using b(2) by (simp add: cursor_inv_def)
  have r: "nat cap \<le> fill_count 0 ops \<or>
             (let r = update__now_len__before_sample b in
                now_len r = next_idx r \<and> now_len r = fill_count 0 ops \<and> now_len r < max_len r)"
  proof (cases "nat cap \<le> fill_count 0 ops")
    case True
    then show ?thesis by simp
  next
    case False
    then have "fill_count 0 ops mod nat cap = fill_count 0 ops" by simp
    then show ?thesis
      using lt b(3,4) nf by (simp add: update__now_len__before_sample_def Let_def)
  qed
  show "\<exists>b0 b. (ReplayBufferCPU_init cap adim :: error + ('s, 'o) ReplayBufferCPU) = Inr b0 \<and>
            run_CPU b0 ops = Inr b \<and> max_len b = nat cap \<and> next_idx b < max_len b \<and>
            (nat cap \<le> fill_count 0 ops \<or>
             (let r = update__now_len__before_sample b in
                now_len r = next_idx r \<and> now_len r = fill_count 0 ops \<and> now_len r < max_len r))"
    using b0 b(1,3) lt r by blast
qed

text \<open>
  Claim C2 as stated fails in four ways. A \<open>ReplayBufferGPU\<close> of capacity 2 after one
  append and no refresh has not wrapped, its write cursor is 1 and its visible length
  is still 0. A \<open>ReplayBufferGPU\<close> of capacity 0 has the write cursor 0, which is not
  below the capacity. A \<open>ReplayBufferCPU\<close> of capacity 2 has \<open>is_full\<close> set by its
  constructor, and a refresh leaves its visible length 0. A \<open>ReplayBufferCPU\<close> of
  capacity 2 after two appends and a refresh holds two entries and has \<open>is_full\<close> set,
  and its visible length is 0, not the capacity.
\<close>

theorem C2_counterexample:
  "(\<exists>b0 b. (ReplayBufferGPU_init 2 :: error + (nat, nat) ReplayBufferGPU) = Inr b0 \<and>
      run_GPU b0 [Append 7 8] = Inr b \<and> \<not> if_full b \<and> now_len b = 0 \<and> next_idx b = 1 \<and>
      \<not> (next_idx b < max_len b \<and> (now_len b = max_len b \<longleftrightarrow> if_full b) \<and>
           (if_full b \<or> now_len b = next_idx b))) \<and>
   (\<exists>b0. (ReplayBufferGPU_init 0 :: error + (nat, nat) ReplayBufferGPU) = Inr b0 \<and>
      \<not> next_idx b0 < max_len b0) \<and>
   (\<exists>b0 b. (ReplayBufferCPU_init 2 1 :: error + (nat, nat) ReplayBufferCPU) = Inr b0 \<and>
      run_CPU b0 [Refresh] = Inr b \<and>
      is_full b \<and> now_len b = 0 \<and> max_len b = 2 \<and>
      \<not> (now_len b = max_len b \<longleftrightarrow> is_full b)) \<and>
   (\<exists>b0 b. (ReplayBufferCPU_init 2 1 :: error + (nat, nat) ReplayBufferCPU) = Inr b0 \<and>
      run_CPU b0 [Append 7 8, Append 9 10, Refresh] = Inr b \<and>
      fill_count 0 [Append 7 8, Append 9 10, Refresh :: (nat, nat) buffer_op] = 2 \<and>
      is_full b \<and> now_len b = 0 \<and> max_len b = 2 \<and>
      \<not> (now_len b = max_len b \<longleftrightarrow> is_full b))"
  by (simp add: ReplayBufferGPU_init_def ReplayBufferGPU_append_memo_def ReplayBufferCPU_init_def
      ReplayBufferCPU_append_memo_def update__now_len__before_sample_def Let_def)

text \<open>
  Claim C2, amended, at concrete inputs of capacity 2. On the GPU buffer: three appends
  (it wraps: cursor 1, full, visible length 2 after a refresh); a reset after them and
  one more append (not full, cursor 1, visible length 1 after a refresh). On the CPU
  buffer: one append (cursor 1, visible length 1 after a refresh).
\<close>

theorem C2_amended_witness:
  "(0::int) < 2 \<and>
   (\<exists>b0 b. (ReplayBufferGPU_init 2 :: error + (nat, nat) ReplayBufferGPU) = Inr b0 \<and>
      run_GPU b0 [Append 7 8, Append 9 10, Append 11 12] = Inr b \<and> max_len b = 2 \<and>
      next_idx b = 1 \<and> if_full b \<and> now_len (update__now_len__before_sample b) = 2) \<and>
   (\<exists>b0 b. (ReplayBufferGPU_init 2 :: error + (nat, nat) ReplayBufferGPU) = Inr b0 \<and>
      run_GPU b0 [Append 7 8, Append 9 10, Append 11 12, Reset, Append 13 14] = Inr b \<and>
      max_len b = 2 \<and> next_idx b = 1 \<and> \<not> if_full b \<and>
      now_len (update__now_len__before_sample b) = 1) \<and>
   (\<exists>b0 b. (ReplayBufferCPU_init 2 1 :: error + (nat, nat) ReplayBufferCPU) = Inr b0 \<and>
      run_CPU b0 [Append 7 8] = Inr b \<and> max_len b = 2 \<and> next_idx b = 1 \<and>
      now_len (update__now_len__before_sample b) = 1)"
  using C2_amended[of 2 "[Append 7 8, Append 9 10, Append 11 12] :: (nat, nat) buffer_op list" 1]
     C2_amended[of 2 "[Append 7 8, Append 9 10, Append 11 12, Reset, Append 13 14]
        :: (nat, nat) buffer_op list" 1]
     C2_amended[of 2 "[Append 7 8] :: (nat, nat) buffer_op list" 1]
  by (simp add: ReplayBufferGPU_init_def ReplayBufferGPU_append_memo_def ReplayBufferCPU_init_def
      ReplayBufferCPU_append_memo_def Let_def update__now_len__before_sample_def
      empty_memories__before_explore_def)


lemma zero_cap_run_GPU:
  assumes "length (all_state b) = 0" "now_len b = 0" "next_idx b = 0" "max_len b = 0"
    "run_GPU b ops = Inr b'"
  shows "now_len b' = 0"
  using assms
proof (induction ops arbitrary: b)
  case Nil
  then show ?case by simp
next
  case (Cons a ops)
  show ?case
  proof (cases a)
    case (Append s x)
    then show ?thesis
      using Cons.prems by (simp add: ReplayBufferGPU_append_memo_def)
  next
    case Refresh
    have z: "(if if_full b then max_len b else next_idx b) = 0"
      using Cons.prems by simp
    show ?thesis
      using Cons.IH[of "update__now_len__before_sample b"] Cons.prems Refresh
      by (simp add: update__now_len__before_sample_def z)
  next
    case Reset
    then show ?thesis
      using Cons.IH[of "empty_memories__before_explore b"] Cons.prems
      by (simp add: empty_memories__before_explore_def)
  qed
qed

lemma reachable_GPU_inv:
  assumes "ReplayBufferGPU_init cap = Inr b0" "run_GPU b0 ops = Inr b" "0 < now_len b"
  shows "cursor_inv b \<and> visible_inv b"
proof -
  have c0: "0 \<le> cap" using assms(1) by (auto simp: ReplayBufferGPU_init_def split: if_splits)
  have "cap \<noteq> 0"
  proof
    assume "cap = 0"
    then have "length (all_state b0) = 0" "now_len b0 = 0" "next_idx b0 = 0" "max_len b0 = 0"
      using assms(1) by (auto simp: ReplayBufferGPU_init_def)
    from zero_cap_run_GPU[OF this assms(2)] assms(3) show False by simp
  qed
  with c0 have "0 < cap" by simp
  then have "cursor_inv b0" "visible_inv b0"
    using assms(1)
    by (auto simp: ReplayBufferGPU_init_def cursor_inv_def visible_inv_def split: if_splits)
  from inv_run_GPU[OF this, of ops] assms(2) show ?thesis by auto
qed

lemma gather_ok:
  assumes "cursor_inv b" "visible_inv b" "\<forall>i\<in>set indices. Suc i < now_len b"
  shows "gather b indices =
     Inr (map (\<lambda>i. map_option (take 1) (all_other b ! i)) indices,
          map (\<lambda>i. map_option (\<lambda>r. take 1 (drop 1 r)) (all_other b ! i)) indices,
          map (\<lambda>i. map_option (drop 2) (all_other b ! i)) indices,
          map (\<lambda>i. all_state b ! i) indices,
          map (\<lambda>i. all_state b ! Suc i) indices)"
proof -
  have "\<forall>i\<in>set indices. Suc i < max_len b"
    using assms(2,3) by (auto simp: visible_inv_def)
  then have "\<forall>i\<in>set indices. i < length (all_other b) \<and> i < length (all_state b) \<and>
      Suc i < length (all_state b)"
    using assms(1) by (auto simp: cursor_inv_def)
  then show ?thesis
    by (auto simp: gather_def list_ex_iff Let_def comp_def)
qed

lemma visible_written:
  assumes "cursor_inv b" "visible_inv b" "j < now_len b"
  shows "all_state b ! j \<noteq> None" "all_other b ! j \<noteq> None"
  using assms by (auto simp: visible_inv_def cursor_inv_def split: if_splits)

lemma random_sample_reachable:
  fixes b :: "('s, 'a list) ReplayBufferGPU"
  assumes "ReplayBufferGPU_init cap = Inr b0" "run_GPU b0 ops = Inr b" "2 \<le> now_len b"
  shows "random_sample b batch_size =
           Inr (map (\<lambda>indices. Inr
                  (map (\<lambda>i. map_option (take 1) (all_other b ! i)) indices,
                   map (\<lambda>i. map_option (\<lambda>r. take 1 (drop 1 r)) (all_other b ! i)) indices,
                   map (\<lambda>i. map_option (drop 2) (all_other b ! i)) indices,
                   map (\<lambda>i. all_state b ! i) indices,
                   map (\<lambda>i. all_state b ! Suc i) indices))
                (List.n_lists batch_size [0..<now_len b - 1]))"
    and "distinct (List.n_lists batch_size [0..<now_len b - 1])"
    and "set (List.n_lists batch_size [0..<now_len b - 1]) =
           {indices. length indices = batch_size \<and> set indices \<subseteq> {0..now_len b - 2}}"
    and "\<forall>indices \<in> set (List.n_lists batch_size [0..<now_len b - 1]). \<forall>i \<in> set indices.
           i < now_len b - 1 \<and>
           all_other b ! i \<noteq> None \<and> all_state b ! i \<noteq> None \<and> all_state b ! Suc i \<noteq> None \<and>
           (if_full b \<or> Suc i < next_idx b)"
proof -
  have inv: "cursor_inv b" "visible_inv b"
    using reachable_GPU_inv[OF assms(1,2)] assms(3) by auto
  have high: "nat (int (now_len b) - 1) = now_len b - 1" "\<not> int (now_len b) - 1 \<le> 0"
    using assms(3) by auto
  have rng: "\<forall>indices \<in> set (List.n_lists batch_size [0..<now_len b - 1]).
      \<forall>i\<in>set indices. Suc i < now_len b"
    by (auto simp: set_n_lists)
  show "random_sample b batch_size =
           Inr (map (\<lambda>indices. Inr
                  (map (\<lambda>i. map_option (take 1) (all_other b ! i)) indices,
                   map (\<lambda>i. map_option (\<lambda>r. take 1 (drop 1 r)) (all_other b ! i)) indices,
                   map (\<lambda>i. map_option (drop 2) (all_other b ! i)) indices,
                   map (\<lambda>i. all_state b ! i) indices,
                   map (\<lambda>i. all_state b ! Suc i) indices))
                (List.n_lists batch_size [0..<now_len b - 1]))"
    using rng gather_ok[OF inv] assms(3)
    by (simp add: random_sample_def torch_randint_def high)
  show "distinct (List.n_lists batch_size [0..<now_len b - 1])"
    by (simp add: distinct_n_lists)
  show "set (List.n_lists batch_size [0..<now_len b - 1]) =
           {indices. length indices = batch_size \<and> set indices \<subseteq> {0..now_len b - 2}}"
    using assms(3) by (auto simp: set_n_lists)
  show "\<forall>indices \<in> set (List.n_lists batch_size [0..<now_len b - 1]). \<forall>i \<in> set indices.
           i < now_len b - 1 \<and>
           all_other b ! i \<noteq> None \<and> all_state b ! i \<noteq> None \<and> all_state b ! Suc i \<noteq> None \<and>
           (if_full b \<or> Suc i < next_idx b)"
  proof (intro ballI)
    fix indices i
    assume "indices \<in> set (List.n_lists batch_size [0..<now_len b - 1])" "i \<in> set indices"
    with rng have i: "Suc i < now_len b" by blast
    then have "i < now_len b" by simp
    from visible_written[OF inv this] visible_written(1)[OF inv i] i inv(2)
    show "i < now_len b - 1 \<and>
           all_other b ! i \<noteq> None \<and> all_state b ! i \<noteq> None \<and> all_state b ! Suc i \<noteq> None \<and>
           (if_full b \<or> Suc i < next_idx b)"
      by (auto simp: visible_inv_def)
  qed
qed


text \<open>
  Claim C3. On a buffer reached from the constructor by appends, refreshes and resets
  that shows at least two rows, \<open>random_sample batch_size\<close> raises nothing. Its draw
  ranges over every list of \<open>batch_size\<close> indices from \<open>[0, now_len - 2]\<close>, repeats
  allowed, each such list being one outcome of the uniform draw and listed once. For the
  drawn indices it returns the reward, mask and action columns of the rows at the
  indices, the states at the indices and the states one row later. Every drawn index
  \<open>i\<close> is below \<open>now_len - 1\<close>, the rows \<open>i\<close> and \<open>i + 1\<close> have been written, and while
  the buffer has not wrapped, row \<open>i + 1\<close> lies below the write cursor.
\<close>

theorem C3_random_sample:
  fixes b :: "('s, 'a list) ReplayBufferGPU"
  assumes "ReplayBufferGPU_init cap = Inr b0" and "run_GPU b0 ops = Inr b" and "2 \<le> now_len b"
  shows "random_sample b batch_size =
           Inr (map (\<lambda>indices. Inr
                  (map (\<lambda>i. map_option (take 1) (all_other b ! i)) indices,
                   map (\<lambda>i. map_option (\<lambda>r. take 1 (drop 1 r)) (all_other b ! i)) indices,
                   map (\<lambda>i. map_option (drop 2) (all_other b ! i)) indices,
                   map (\<lambda>i. all_state b ! i) indices,
                   map (\<lambda>i. all_state b ! Suc i) indices))
                (List.n_lists batch_size [0..<now_len b - 1])) \<and>
         distinct (List.n_lists batch_size [0..<now_len b - 1]) \<and>
         set (List.n_lists batch_size [0..<now_len b - 1]) =
           {indices. length indices = batch_size \<and> set indices \<subseteq> {0..now_len b - 2}} \<and>
         (\<forall>indices \<in> set (List.n_lists batch_size [0..<now_len b - 1]). \<forall>i \<in> set indices.
           i < now_len b - 1 \<and>
           all_other b ! i \<noteq> None \<and> all_state b ! i \<noteq> None \<and> all_state b ! Suc i \<noteq> None \<and>
           (if_full b \<or> Suc i < next_idx b))"
  using random_sample_reachable[OF assms, of batch_size] by blast

text \<open>
  Claim C3, at a concrete input: a buffer of capacity 3 after two appends and a refresh,
  sampled with batch size 2. The only index that can be drawn is 0.
\<close>

theorem C3_random_sample_witness:
  "\<exists>b0 b. (ReplayBufferGPU_init 3 :: error + (nat, int list) ReplayBufferGPU) = Inr b0 \<and>
     run_GPU b0 (appends [(1, [5, 9, 7]), (2, [6, 0, 8])] @ [Refresh]) = Inr b \<and>
     2 \<le> now_len b \<and>
     random_sample b 2 =
       Inr [Inr ([Some [5], Some [5]], [Some [9], Some [9]], [Some [7], Some [7]],
                 [Some 1, Some 1], [Some 2, Some 2])]"
proof -
  define b0 :: "(nat, int list) ReplayBufferGPU" where
    "b0 = \<lparr>max_len = 3, now_len = 0, next_idx = 0, if_full = False,
           all_state = replicate 3 None, all_other = replicate 3 None\<rparr>"
  define b :: "(nat, int list) ReplayBufferGPU" where
    "b = \<lparr>max_len = 3, now_len = 2, next_idx = 2, if_full = False,
          all_state = [Some 1, Some 2, None],
          all_other = [Some [5, 9, 7], Some [6, 0, 8], None]\<rparr>"
  have i: "ReplayBufferGPU_init 3 = Inr b0"
    by (simp add: ReplayBufferGPU_init_def b0_def)
  have r: "run_GPU b0 (appends [(1, [5, 9, 7]), (2, [6, 0, 8])] @ [Refresh]) = Inr b"
    by (simp add: b0_def b_def appends_def ReplayBufferGPU_append_memo_def Let_def
        update__now_len__before_sample_def numeral_3_eq_3)
  have n: "2 \<le> now_len b" by (simp add: b_def)
  have "random_sample b 2 =
       Inr [Inr ([Some [5], Some [5]], [Some [9], Some [9]], [Some [7], Some [7]],
                 [Some 1, Some 1], [Some 2, Some 2])]"
    using C3_random_sample[OF i r n, of 2]
    by (simp add: b_def numeral_2_eq_2)
  with i r n show ?thesis by blast
qed

section \<open>Properties of the return and advantage loops\<close>

lemma old_v_loop_correct:
  assumes "k \<le> n" "length r = n" "length m = n" "length v = n"
  shows "\<exists>v'. old_v_loop k r m v (ret r m n (n - k)) = Inr v' \<and> length v' = n \<and>
           (\<forall>j<k. v' ! j = Some (ret r m n (n - j))) \<and> (\<forall>j. k \<le> j \<longrightarrow> v' ! j = v ! j)"
  using assms
proof (induction k arbitrary: v)
  case 0
  then show ?case by simp
next
  case (Suc k)
  let ?x = "r ! k + m ! k * ret r m n (n - Suc k)"
  have e: "ret r m n (n - k) = ?x"
  proof -
    have "n - k = Suc (n - Suc k)" using Suc.prems(1) by simp
    moreover have "n - Suc (n - Suc k) = k" using Suc.prems(1) by simp
    ultimately show ?thesis by (metis ret.simps(2))
  qed
  have k: "k \<le> n" "k < n" using Suc.prems(1) by simp_all
  from Suc.IH[OF k(1) Suc.prems(2,3), of "v[k := Some ?x]"] Suc.prems(4)
  obtain v' where v': "old_v_loop k r m (v[k := Some ?x]) (ret r m n (n - k)) = Inr v'"
    "length v' = n" "\<forall>j<k. v' ! j = Some (ret r m n (n - j))"
    "\<forall>j. k \<le> j \<longrightarrow> v' ! j = (v[k := Some ?x]) ! j"
    by auto
  have step: "old_v_loop (Suc k) r m v (ret r m n (n - Suc k)) = Inr v'"
    using v'(1) k(2) Suc.prems(2,3,4) e by (simp add: Let_def)
  have a: "\<forall>j<Suc k. v' ! j = Some (ret r m n (n - j))"
  proof (intro allI impI)
    fix j assume "j < Suc k"
    then consider "j < k" | "j = k" by linarith
    then show "v' ! j = Some (ret r m n (n - j))"
    proof cases
      case 1
      then show ?thesis using v'(3) by simp
    next
      case 2
      then show ?thesis using v'(4) k(2) Suc.prems(4) e by simp
    qed
  qed
  have b: "\<forall>j. Suc k \<le> j \<longrightarrow> v' ! j = v ! j"
    using v'(4) by simp
  show ?case using step v'(2) a b by blast
qed

lemma get_old_v_correct:
  assumes "length r = n" "length m = n"
  shows "get_old_v n r m = Inr (map (\<lambda>j. Some (ret r m n (n - j))) [0..<n])"
proof -
  from old_v_loop_correct[OF le_refl assms, of "replicate n None"]
  obtain v' where v': "old_v_loop n r m (replicate n None) (ret r m n (n - n)) = Inr v'"
    "length v' = n" "\<forall>j<n. v' ! j = Some (ret r m n (n - j))"
    by auto
  have "v' = map (\<lambda>j. Some (ret r m n (n - j))) [0..<n]"
    using v'(2,3) by (intro nth_equalityI) simp_all
  then show ?thesis using v'(1) by (simp add: get_old_v_def)
qed

lemma ret_unfold:
  assumes "j < n"
  shows "ret r m n (n - j) = r ! j + m ! j * ret r m n (n - Suc j)"
proof -
  have "n - j = Suc (n - Suc j)" using assms by simp
  moreover have "n - Suc (n - Suc j) = j" using assms by simp
  ultimately show ?thesis by (metis ret.simps(2))
qed

lemma gae_prev_unfold:
  assumes "j < n"
  shows "gae_prev lam r m v n (n - j) =
     v ! j + (r ! j + m ! j * gae_prev lam r m v n (n - Suc j) - v ! j) * lam"
proof -
  have "n - j = Suc (n - Suc j)" using assms by simp
  moreover have "n - Suc (n - Suc j) = j" using assms by simp
  ultimately show ?thesis by (metis gae_prev.simps(2))
qed

lemma gae_loop_correct:
  assumes "k \<le> n" "length r = n" "length m = n" "length v = n" "length ov = n" "length av = n"
  shows "\<exists>ov' av'. gae_loop k lam r m v ov av (ret r m n (n - k)) (gae_prev lam r m v n (n - k))
             = Inr (ov', av') \<and> length ov' = n \<and> length av' = n \<and>
           (\<forall>j<k. ov' ! j = Some (ret r m n (n - j)) \<and>
                  av' ! j = Some (r ! j + m ! j * gae_prev lam r m v n (n - Suc j) - v ! j)) \<and>
           (\<forall>j. k \<le> j \<longrightarrow> ov' ! j = ov ! j \<and> av' ! j = av ! j)"
  using assms
proof (induction k arbitrary: ov av)
  case 0
  then show ?case by simp
next
  case (Suc k)
  have k: "k \<le> n" "k < n" using Suc.prems(1) by simp_all
  let ?x = "r ! k + m ! k * ret r m n (n - Suc k)"
  let ?a = "r ! k + m ! k * gae_prev lam r m v n (n - Suc k) - v ! k"
  have e1: "ret r m n (n - k) = ?x" by (rule ret_unfold[OF k(2)])
  have e2: "gae_prev lam r m v n (n - k) = v ! k + ?a * lam" by (rule gae_prev_unfold[OF k(2)])
  have l: "length (ov[k := Some ?x]) = n" "length (av[k := Some ?a]) = n"
    using Suc.prems(5,6) by simp_all
  from Suc.IH[OF k(1) Suc.prems(2,3,4) l]
  obtain ov' av' where r':
    "gae_loop k lam r m v (ov[k := Some ?x]) (av[k := Some ?a]) (ret r m n (n - k))
       (gae_prev lam r m v n (n - k)) = Inr (ov', av')"
    "length ov' = n" "length av' = n"
    "\<forall>j<k. ov' ! j = Some (ret r m n (n - j)) \<and>
           av' ! j = Some (r ! j + m ! j * gae_prev lam r m v n (n - Suc j) - v ! j)"
    "\<forall>j. k \<le> j \<longrightarrow> ov' ! j = (ov[k := Some ?x]) ! j \<and> av' ! j = (av[k := Some ?a]) ! j"
    by blast
  have step: "gae_loop (Suc k) lam r m v ov av (ret r m n (n - Suc k))
      (gae_prev lam r m v n (n - Suc k)) = Inr (ov', av')"
    using r'(1) k(2) Suc.prems(2-6) e1 e2 by (simp add: Let_def)
  have atk: "ov' ! k = Some ?x" "av' ! k = Some ?a"
    using r'(5) k(2) Suc.prems(5,6) by simp_all
  have a: "\<forall>j<Suc k. ov' ! j = Some (ret r m n (n - j)) \<and>
           av' ! j = Some (r ! j + m ! j * gae_prev lam r m v n (n - Suc j) - v ! j)"
  proof (intro allI impI)
    fix j assume "j < Suc k"
    then consider "j < k" | "j = k" by linarith
    then show "ov' ! j = Some (ret r m n (n - j)) \<and>
           av' ! j = Some (r ! j + m ! j * gae_prev lam r m v n (n - Suc j) - v ! j)"
    proof cases
      case 1
      then show ?thesis using r'(4) by simp
    next
      case 2
      then show ?thesis using atk e1 by simp
    qed
  qed
  have b: "\<forall>j. Suc k \<le> j \<longrightarrow> ov' ! j = ov ! j \<and> av' ! j = av ! j"
    using r'(5) by simp
  show ?case using step r'(2,3) a b by blast
qed

lemma get_gae_correct:
  assumes "length r = n" "length m = n" "length v = n"
  shows "get_gae n lam r m v =
     Inr (map (\<lambda>j. Some (ret r m n (n - j))) [0..<n],
          map (\<lambda>j. Some (r ! j + m ! j * gae_prev lam r m v n (n - Suc j) - v ! j)) [0..<n])"
proof -
  from gae_loop_correct[OF le_refl assms, of "replicate n None" "replicate n None" lam]
  obtain ov' av' where r':
    "gae_loop n lam r m v (replicate n None) (replicate n None) (ret r m n (n - n))
       (gae_prev lam r m v n (n - n)) = Inr (ov', av')"
    "length ov' = n" "length av' = n"
    "\<forall>j<n. ov' ! j = Some (ret r m n (n - j)) \<and>
           av' ! j = Some (r ! j + m ! j * gae_prev lam r m v n (n - Suc j) - v ! j)"
    by auto
  have "ov' = map (\<lambda>j. Some (ret r m n (n - j))) [0..<n]"
    using r'(2,4) by (intro nth_equalityI) simp_all
  moreover have "av' = map (\<lambda>j. Some (r ! j + m ! j * gae_prev lam r m v n (n - Suc j) - v ! j)) [0..<n]"
    using r'(3,4) by (intro nth_equalityI) simp_all
  ultimately show ?thesis using r'(1) by (simp add: get_gae_def)
qed

lemma gae_prev_lambda0:
  "gae_prev 0 r m v n k = (if k = 0 then 0 else v ! (n - k))"
  by (cases k) simp_all

lemma gae_prev_lambda1: "gae_prev 1 r m v n k = ret r m n k"
  by (induction k) simp_all

text \<open>
  Claim C4. For rewards and masks of one length \<open>n\<close>, the loop of
  \<open>AgentPPO.update_policy\<close> raises nothing and fills \<open>all__old_v\<close> with values \<open>R\<close>
  such that \<open>R[n-1] = reward[n-1]\<close> and \<open>R[i] = reward[i] + mask[i] * R[i+1]\<close> for every
  \<open>i\<close> below \<open>n - 1\<close>. On rewards \<open>[1,1,1]\<close> and masks \<open>[0.9,0.9,0]\<close> it yields
  \<open>[2.71, 1.9, 1.0]\<close>. \<open>AgentGaePPO.update_policy\<close> computes the same returns
  (lemma \<open>get_gae_correct\<close>).
\<close>

theorem C4_plain_return:
  assumes "length r = n" and "length m = n"
  shows "(\<exists>R. get_old_v n r m = Inr (map Some R) \<and> length R = n \<and>
            (0 < n \<longrightarrow> R ! (n - 1) = r ! (n - 1)) \<and>
            (\<forall>i. Suc i < n \<longrightarrow> R ! i = r ! i + m ! i * R ! Suc i)) \<and>
         get_old_v 3 [1, 1, 1] [9 / 10, 9 / 10, 0] = Inr [Some (271 / 100), Some (19 / 10), Some 1]"
proof
  let ?R = "map (\<lambda>j. ret r m n (n - j)) [0..<n]"
  have g: "get_old_v n r m = Inr (map Some ?R)"
    using get_old_v_correct[OF assms] by (simp add: comp_def)
  have l: "length ?R = n" by simp
  have last: "0 < n \<longrightarrow> ?R ! (n - 1) = r ! (n - 1)"
  proof
    assume "0 < n"
    then have "n - 1 < n" by simp
    from ret_unfold[OF this, of r m] \<open>0 < n\<close> show "?R ! (n - 1) = r ! (n - 1)" by simp
  qed
  have rec: "\<forall>i. Suc i < n \<longrightarrow> ?R ! i = r ! i + m ! i * ?R ! Suc i"
  proof (intro allI impI)
    fix i assume i: "Suc i < n"
    then have "i < n" by simp
    from ret_unfold[OF this, of r m] i show "?R ! i = r ! i + m ! i * ?R ! Suc i" by simp
  qed
  show "\<exists>R. get_old_v n r m = Inr (map Some R) \<and> length R = n \<and>
            (0 < n \<longrightarrow> R ! (n - 1) = r ! (n - 1)) \<and>
            (\<forall>i. Suc i < n \<longrightarrow> R ! i = r ! i + m ! i * R ! Suc i)"
    using g l last rec by blast
next
  show "get_old_v 3 [1, 1, 1] [9 / 10, 9 / 10, 0] = Inr [Some (271 / 100), Some (19 / 10), Some 1]"
    by (simp add: get_old_v_def numeral_3_eq_3 Let_def)
qed

text \<open>
  Claim C4 at a concrete input: rewards \<open>[2, 3]\<close> and masks \<open>[0.5, 0]\<close> give the
  returns \<open>[3.5, 3]\<close>.
\<close>

theorem C4_plain_return_witness:
  "length [2, 3 :: real] = 2 \<and> length [1 / 2, 0 :: real] = 2 \<and>
   get_old_v 2 [2, 3] [1 / 2, 0] = Inr [Some (7 / 2), Some 3]"
proof -
  from C4_plain_return[of "[2, 3]" 2 "[1 / 2, 0]"]
  obtain R where R: "get_old_v 2 [2, 3] [1 / 2, 0] = Inr (map Some R)" "length R = 2"
    "R ! (2 - 1) = [2, 3] ! (2 - 1)" "\<forall>i. Suc i < 2 \<longrightarrow> R ! i = [2, 3] ! i + [1 / 2, 0] ! i * R ! Suc i"
    by auto
  from R(4) have "R ! 0 = [2, 3] ! 0 + [1 / 2, 0] ! 0 * R ! Suc 0" by simp
  with R(3) have v: "R ! 0 = 7 / 2" "R ! 1 = 3" by simp_all
  have "R = [7 / 2, 3]"
    using R(2) v by (intro nth_equalityI) (auto simp: less_Suc_eq numeral_2_eq_2)
  with R(1) show ?thesis by simp
qed

text \<open>
  Claim C5 as stated fails at \<open>lambda = 0\<close>. On rewards \<open>[1, 1]\<close>, masks \<open>[0.9, 0]\<close>
  and values \<open>[0.5, 0.5]\<close> the loop of \<open>AgentGaePPO.update_policy\<close> with
  \<open>lambda_adv = 0\<close> yields the advantages \<open>[0.95, 0.5]\<close>, while the plain returns are
  \<open>[1.9, 1]\<close>: the plain return minus the value is \<open>[1.4, 0.5]\<close>, and the advantage of
  \<open>AgentPPO.update_policy\<close> (plain return minus mask times value) is \<open>[1.45, 1]\<close>.
\<close>

theorem C5_counterexample:
  "\<exists>ov av. get_gae 2 0 [1, 1] [9 / 10, 0] [1 / 2, 1 / 2] = Inr (ov, av) \<and>
     ov = [Some (19 / 10), Some 1] \<and> av = [Some (19 / 20), Some (1 / 2)] \<and>
     return_minus_value [1, 1] [9 / 10, 0] [1 / 2, 1 / 2] = [7 / 5, 1 / 2] \<and>
     av \<noteq> map Some (return_minus_value [1, 1] [9 / 10, 0] [1 / 2, 1 / 2]) \<and>
     ppo_adv_v [19 / 10, 1] [9 / 10, 0] [1 / 2, 1 / 2] = [29 / 20, 1] \<and>
     av \<noteq> map Some (ppo_adv_v [19 / 10, 1] [9 / 10, 0] [1 / 2, 1 / 2])"
  by (simp add: get_gae_def Let_def numeral_2_eq_2 return_minus_value_def ppo_adv_v_def)

text \<open>
  Claim C5, amended. For rewards, masks and values of one length \<open>n\<close> the loop raises
  nothing, its returns are those of the plain loop, and its advantages \<open>A\<close> satisfy,
  for every \<open>lambda\<close>, \<open>A[i] = reward[i] + mask[i] * P[i+1] - V[i]\<close> with
  \<open>P[i] = V[i] + A[i] * lambda\<close> and \<open>P[n] = 0\<close>. At \<open>lambda = 0\<close> they are the one-step
  residuals \<open>reward[i] + mask[i] * V[i+1] - V[i]\<close> (with \<open>V[n] = 0\<close>); at \<open>lambda = 1\<close>
  they are the plain returns minus the values, \<open>R[i] - V[i]\<close>.
\<close>

theorem C5_amended:
  assumes "length r = n" and "length m = n" and "length v = n"
  shows "\<exists>R A0 A1 A P.
      get_old_v n r m = Inr (map Some R) \<and>
      get_gae n 0 r m v = Inr (map Some R, map Some A0) \<and>
      get_gae n 1 r m v = Inr (map Some R, map Some A1) \<and>
      get_gae n lam r m v = Inr (map Some R, map Some A) \<and>
      length R = n \<and> length A0 = n \<and> length A1 = n \<and> length A = n \<and> length P = n \<and>
      (\<forall>i<n. A0 ! i = r ! i + m ! i * (if Suc i < n then v ! Suc i else 0) - v ! i) \<and>
      (\<forall>i<n. A1 ! i = R ! i - v ! i) \<and> A1 = return_minus_value r m v \<and>
      (\<forall>i<n. A ! i = r ! i + m ! i * (if Suc i < n then P ! Suc i else 0) - v ! i \<and>
              P ! i = v ! i + A ! i * lam)"
proof -
  define R where "R = map (\<lambda>j. ret r m n (n - j)) [0..<n]"
  define adv where "adv = (\<lambda>l. map (\<lambda>j. r ! j + m ! j * gae_prev l r m v n (n - Suc j) - v ! j) [0..<n])"
  define P where "P = map (\<lambda>j. gae_prev lam r m v n (n - j)) [0..<n]"
  have g: "get_gae n l r m v = Inr (map Some R, map Some (adv l))" for l
    using get_gae_correct[OF assms, of l] by (simp add: R_def adv_def comp_def)
  have o: "get_old_v n r m = Inr (map Some R)"
    using get_old_v_correct[OF assms(1,2)] by (simp add: R_def comp_def)
  have a0: "\<forall>i<n. adv 0 ! i = r ! i + m ! i * (if Suc i < n then v ! Suc i else 0) - v ! i"
  proof (intro allI impI)
    fix i assume i: "i < n"
    show "adv 0 ! i = r ! i + m ! i * (if Suc i < n then v ! Suc i else 0) - v ! i"
    proof (cases "Suc i < n")
      case True
      then have "n - (n - Suc i) = Suc i" by simp
      with True i show ?thesis by (simp add: adv_def gae_prev_lambda0)
    next
      case False
      with i have "n - Suc i = 0" by simp
      with False i show ?thesis by (simp add: adv_def)
    qed
  qed
  have a1: "\<forall>i<n. adv 1 ! i = R ! i - v ! i"
    using ret_unfold[of _ n r m] by (simp add: adv_def R_def gae_prev_lambda1)
  have rmv: "adv 1 = return_minus_value r m v"
  proof (intro nth_equalityI)
    show "length (adv 1) = length (return_minus_value r m v)"
      using assms(1) by (simp add: adv_def return_minus_value_def)
  next
    fix i assume "i < length (adv 1)"
    then have i: "i < n" by (simp add: adv_def)
    then show "adv 1 ! i = return_minus_value r m v ! i"
      using a1 assms(1) by (simp add: return_minus_value_def R_def)
  qed
  have al: "\<forall>i<n. adv lam ! i = r ! i + m ! i * (if Suc i < n then P ! Suc i else 0) - v ! i \<and>
              P ! i = v ! i + adv lam ! i * lam"
  proof (intro allI impI)
    fix i assume i: "i < n"
    have p: "P ! i = v ! i + adv lam ! i * lam"
      using i gae_prev_unfold[OF i, of lam r m v] by (simp add: P_def adv_def)
    have "adv lam ! i = r ! i + m ! i * (if Suc i < n then P ! Suc i else 0) - v ! i"
    proof (cases "Suc i < n")
      case True
      with i show ?thesis by (simp add: adv_def P_def)
    next
      case False
      with i have "n - Suc i = 0" by simp
      with False i show ?thesis by (simp add: adv_def)
    qed
    with p show "adv lam ! i = r ! i + m ! i * (if Suc i < n then P ! Suc i else 0) - v ! i \<and>
              P ! i = v ! i + adv lam ! i * lam" by simp
  qed
  have len: "length R = n" "length (adv 0) = n" "length (adv 1) = n" "length (adv lam) = n"
    "length P = n"
    by (simp_all add: R_def adv_def P_def)
  show ?thesis
    apply (rule exI[of _ R], rule exI[of _ "adv 0"], rule exI[of _ "adv 1"],
        rule exI[of _ "adv lam"], rule exI[of _ P])
    using o g a0 a1 rmv al len by simp
qed

text \<open>
  Claim C5, amended, at the input of the counterexample: at \<open>lambda = 0\<close> the
  advantages are \<open>[0.95, 0.5]\<close>, at \<open>lambda = 1\<close> they are \<open>[1.4, 0.5]\<close>.
\<close>

theorem C5_amended_witness:
  "length [1, 1 :: real] = 2 \<and> length [9 / 10, 0 :: real] = 2 \<and> length [1 / 2, 1 / 2 :: real] = 2 \<and>
   get_gae 2 0 [1, 1] [9 / 10, 0] [1 / 2, 1 / 2] =
     Inr ([Some (19 / 10), Some 1], [Some (19 / 20), Some (1 / 2)]) \<and>
   get_gae 2 1 [1, 1] [9 / 10, 0] [1 / 2, 1 / 2] =
     Inr ([Some (19 / 10), Some 1], [Some (7 / 5), Some (1 / 2)])"
  using C5_amended[of "[1, 1]" 2 "[9 / 10, 0]" "[1 / 2, 1 / 2]" 0]
  by (simp add: get_gae_def Let_def numeral_2_eq_2)

section \<open>Properties of the soft target update\<close>

text \<open>
  Claim C6. \<open>soft_target_update\<close> keeps the number of the target's parameters and sets
  every element of every paired parameter to \<open>tau * online + (1 - tau) * target\<close>. So
  \<open>tau = 0\<close> leaves the target as it is, \<open>tau = 1\<close> makes each paired parameter equal
  to the online one, and for \<open>tau\<close> in \<open>[0, 1]\<close> each element lies between the target's
  and the online network's. A parameter of the target without a partner is not changed.
\<close>

theorem C6_soft_target_update:
  "length (soft_target_update target current tau) = length target \<and>
   (\<forall>k. k < length target \<and> k < length current \<longrightarrow>
      (\<forall>i. (soft_target_update target current tau ! k) i =
             tau * (current ! k) i + (1 - tau) * (target ! k) i) \<and>
      soft_target_update target current 0 ! k = target ! k \<and>
      soft_target_update target current 1 ! k = current ! k \<and>
      (0 \<le> tau \<and> tau \<le> 1 \<longrightarrow>
         (\<forall>i. min ((target ! k) i) ((current ! k) i) \<le> (soft_target_update target current tau ! k) i \<and>
              (soft_target_update target current tau ! k) i \<le> max ((target ! k) i) ((current ! k) i)))) \<and>
   (\<forall>k. length current \<le> k \<and> k < length target \<longrightarrow>
      soft_target_update target current tau ! k = target ! k) \<and>
   soft_target_update target current 0 = target"
proof -
  have len: "length (soft_target_update target current tau) = length target" for tau
    by (simp add: soft_target_update_def)
  have pt: "(soft_target_update target current tau ! k) i =
             tau * (current ! k) i + (1 - tau) * (target ! k) i"
    if "k < length target" "k < length current" for k i tau
    using that by (simp add: soft_target_update_def nth_append)
  have rest: "soft_target_update target current tau ! k = target ! k"
    if "length current \<le> k" "k < length target" for k tau
    using that by (simp add: soft_target_update_def nth_append min_def)
  have z: "soft_target_update target current 0 ! k = target ! k" if "k < length target" for k
  proof (cases "k < length current")
    case True
    show ?thesis using pt[OF that True, of 0] by (intro ext) simp
  next
    case False
    then show ?thesis using rest[of k 0] that by simp
  qed
  have zeq: "soft_target_update target current 0 = target"
    using z len by (intro nth_equalityI) simp_all
  have one: "soft_target_update target current 1 ! k = current ! k"
    if "k < length target" "k < length current" for k
    using pt[OF that, of 1] by (intro ext) simp
  have conv: "min t p \<le> tau * p + (1 - tau) * t \<and> tau * p + (1 - tau) * t \<le> max t p"
    if "0 \<le> tau" "tau \<le> 1" for t p :: real
  proof -
    have u: "0 \<le> 1 - tau" using that by simp
    have "tau * min t p + (1 - tau) * min t p \<le> tau * p + (1 - tau) * t"
      by (intro add_mono mult_left_mono that(1) u) simp_all
    moreover have "tau * min t p + (1 - tau) * min t p = min t p"
      by (simp add: algebra_simps)
    moreover have "tau * p + (1 - tau) * t \<le> tau * max t p + (1 - tau) * max t p"
      by (intro add_mono mult_left_mono that(1) u) simp_all
    moreover have "tau * max t p + (1 - tau) * max t p = max t p"
      by (simp add: algebra_simps)
    ultimately show ?thesis by simp
  qed
  show ?thesis
    using len pt rest z zeq one conv by (simp add: pt)
qed

text \<open>
  Claim C6 at a concrete input: a target with two parameters (constant 2 and constant
  6), an online network with one (constant 4), \<open>tau = 0.5\<close>: the first becomes 3, the
  second stays 6.
\<close>

theorem C6_soft_target_update_witness:
  "length (soft_target_update [\<lambda>i::nat. 2, \<lambda>i. 6] [\<lambda>i. 4] (1 / 2)) = 2 \<and>
   (soft_target_update [\<lambda>i::nat. 2, \<lambda>i. 6] [\<lambda>i. 4] (1 / 2) ! 0) 7 = 3 \<and>
   (soft_target_update [\<lambda>i::nat. 2, \<lambda>i. 6] [\<lambda>i. 4] (1 / 2) ! 1) 7 = 6"
  using C6_soft_target_update[of "[\<lambda>i::nat. 2, \<lambda>i. 6]" "[\<lambda>i. 4]" "1 / 2"]
  by (simp add: soft_target_update_def)

section \<open>Properties of the clipped surrogate objective\<close>

text \<open>
  Claim C9 as stated fails for a negative advantage: at \<open>clip = 0.25\<close>, advantage
  \<open>-1\<close> and ratio \<open>0.5\<close> the unclamped surrogate is \<open>-0.5\<close> and the selected term is
  \<open>-0.75\<close>, which is below it, not at or above it.
\<close>

theorem C9_counterexample:
  "(- 1 :: real) < 0 \<and> surrogate_min (1 / 4) (- 1) (1 / 2) = - 3 / 4 \<and>
   obj_surrogate1 (- 1) (1 / 2) = - 1 / 2 \<and>
   \<not> obj_surrogate1 (- 1) (1 / 2) \<le> surrogate_min (1 / 4) (- 1) (1 / 2)"
  by (simp add: surrogate_min_def obj_surrogate1_def obj_surrogate2_def clamp_def)

text \<open>
  Claim C9, amended. For \<open>clip \<ge> 0\<close>: a ratio below \<open>1 - clip\<close> gives the clamped
  term the value at the lower boundary, a ratio above \<open>1 + clip\<close> the value at the
  upper one. The term that \<open>min\<close> selects is at most the unclamped surrogate for every
  advantage, of either sign. For a positive advantage it is the unclamped surrogate up
  to \<open>1 + clip\<close> and strictly below it beyond; for a negative advantage it is the
  unclamped surrogate from \<open>1 - clip\<close> on and strictly below it under \<open>1 - clip\<close>.
\<close>

theorem C9_amended:
  assumes "0 \<le> clip"
  shows "(ratio < 1 - clip \<longrightarrow> obj_surrogate2 clip advantage ratio = advantage * (1 - clip)) \<and>
         (1 + clip < ratio \<longrightarrow> obj_surrogate2 clip advantage ratio = advantage * (1 + clip)) \<and>
         surrogate_min clip advantage ratio \<le> obj_surrogate1 advantage ratio \<and>
         (0 < advantage \<and> ratio \<le> 1 + clip \<longrightarrow>
            surrogate_min clip advantage ratio = obj_surrogate1 advantage ratio) \<and>
         (0 < advantage \<and> 1 + clip < ratio \<longrightarrow>
            surrogate_min clip advantage ratio < obj_surrogate1 advantage ratio) \<and>
         (advantage < 0 \<and> 1 - clip \<le> ratio \<longrightarrow>
            surrogate_min clip advantage ratio = obj_surrogate1 advantage ratio) \<and>
         (advantage < 0 \<and> ratio < 1 - clip \<longrightarrow>
            surrogate_min clip advantage ratio < obj_surrogate1 advantage ratio)"
proof (intro conjI impI)
  show "obj_surrogate2 clip advantage ratio = advantage * (1 - clip)" if "ratio < 1 - clip"
    using that assms by (simp add: obj_surrogate2_def clamp_def min_def max_def)
  show "obj_surrogate2 clip advantage ratio = advantage * (1 + clip)" if "1 + clip < ratio"
    using that assms by (simp add: obj_surrogate2_def clamp_def min_def max_def)
  show "surrogate_min clip advantage ratio \<le> obj_surrogate1 advantage ratio"
    by (simp add: surrogate_min_def)
  show "surrogate_min clip advantage ratio = obj_surrogate1 advantage ratio"
    if "0 < advantage \<and> ratio \<le> 1 + clip"
  proof -
    have "ratio \<le> clamp ratio (1 - clip) (1 + clip)"
      using that by (simp add: clamp_def min_def max_def)
    then have "advantage * ratio \<le> advantage * clamp ratio (1 - clip) (1 + clip)"
      using that by (simp add: mult_left_mono)
    then show ?thesis
      by (simp add: surrogate_min_def obj_surrogate1_def obj_surrogate2_def min_def)
  qed
  show "surrogate_min clip advantage ratio < obj_surrogate1 advantage ratio"
    if "0 < advantage \<and> 1 + clip < ratio"
  proof -
    have "clamp ratio (1 - clip) (1 + clip) = 1 + clip"
      using that assms by (simp add: clamp_def min_def max_def)
    moreover have "advantage * (1 + clip) < advantage * ratio"
      using that by (simp add: mult_strict_left_mono)
    ultimately show ?thesis
      by (simp add: surrogate_min_def obj_surrogate1_def obj_surrogate2_def min_def)
  qed
  show "surrogate_min clip advantage ratio = obj_surrogate1 advantage ratio"
    if "advantage < 0 \<and> 1 - clip \<le> ratio"
  proof -
    have "clamp ratio (1 - clip) (1 + clip) \<le> ratio"
      using that by (simp add: clamp_def min_def max_def)
    then have "advantage * ratio \<le> advantage * clamp ratio (1 - clip) (1 + clip)"
      using that by (simp add: mult_left_mono_neg)
    then show ?thesis
      by (simp add: surrogate_min_def obj_surrogate1_def obj_surrogate2_def min_def)
  qed
  show "surrogate_min clip advantage ratio < obj_surrogate1 advantage ratio"
    if "advantage < 0 \<and> ratio < 1 - clip"
  proof -
    have "clamp ratio (1 - clip) (1 + clip) = 1 - clip"
      using that assms by (simp add: clamp_def min_def max_def)
    moreover have "advantage * (1 - clip) < advantage * ratio"
      using that by (simp add: mult_strict_left_mono_neg)
    ultimately show ?thesis
      by (simp add: surrogate_min_def obj_surrogate1_def obj_surrogate2_def min_def)
  qed
qed

text \<open>
  Claim C9, amended, at \<open>clip = 0.25\<close>: advantage \<open>-1\<close> with ratio \<open>0.5\<close> and with
  ratio \<open>3\<close>, advantage \<open>2\<close> with ratio \<open>3\<close>.
\<close>

theorem C9_amended_witness:
  "(0 :: real) \<le> 1 / 4 \<and> obj_surrogate2 (1 / 4) (- 1) (1 / 2) = - 1 * (1 - 1 / 4) \<and>
   obj_surrogate2 (1 / 4) 2 3 = 2 * (1 + 1 / 4) \<and>
   surrogate_min (1 / 4) (- 1) (1 / 2) < obj_surrogate1 (- 1) (1 / 2) \<and>
   surrogate_min (1 / 4) 2 3 < obj_surrogate1 2 3 \<and>
   surrogate_min (1 / 4) (- 1) 3 = obj_surrogate1 (- 1) 3"
  using C9_amended[of "1 / 4" "1 / 2" "- 1"] C9_amended[of "1 / 4" 3 2]
    C9_amended[of "1 / 4" 3 "- 1"]
  by simp

section \<open>Properties of the training loop\<close>

text \<open>
  Claim C8 at a failing input. Early stop is enabled, the budget is 5 steps, there is
  no stop file, every collect phase takes 2 steps and every evaluation averages 1
  against a target of 0. The first evaluation finds the policy solved (\<open>used_time\<close>
  is set at clock 0), yet the loop runs three iterations and stops only when
  \<open>total_step = 6\<close> exceeds the budget: its \<open>if_solve\<close> is still \<open>False\<close>.
\<close>

theorem C8_solved_does_not_stop:
  "train_and_evaluate True 5 0 (\<lambda>k. False) (\<lambda>k. 2) (\<lambda>k. 1) (\<lambda>k. int k) 0 =
     Some (3, 6, False, \<lparr>r_max = Some 1, total_step = 6, used_time = Some 0, target_reward = 0\<rparr>) \<and>
   fst (evaluate_and_save (Evaluator_init 0) 1 2 0) =
     \<lparr>r_max = Some 1, total_step = 2, used_time = Some 0, target_reward = 0\<rparr>"
  by (simp add: train_and_evaluate_def train_loop.simps evaluate_and_save_def Evaluator_init_def
      Let_def)

text \<open>
  Whenever the loop returns, its \<open>if_solve\<close> is the one it started with and the
  condition that ended it holds of the returned state.
\<close>

lemma train_loop_exit:
  assumes "train_loop ibe bs stop steps_of r_avg_of clock k ts s ev = Some y"
  shows "fst (snd (snd y)) = s \<and> ((ibe \<and> s) \<or> bs < fst (snd y) \<or> stop (fst y))"
  by (rule train_loop.raw_induct[where P = "\<lambda>ibe bs stop steps_of r_avg_of clock k ts s ev y.
        fst (snd (snd y)) = s \<and> ((ibe \<and> s) \<or> bs < fst (snd y) \<or> stop (fst y))", OF _ assms])
    (auto split: if_splits simp: Let_def)

text \<open>
  So a run of \<open>train_and_evaluate\<close> that returns has ended on the step budget or on
  the stop file, whatever the evaluator found.
\<close>

lemma train_and_evaluate_exit:
  assumes "train_and_evaluate ibe bs target stop steps_of r_avg_of clock steps =
             Some (k, ts, s, ev)"
  shows "\<not> s \<and> (bs < ts \<or> stop k)"
  using train_loop_exit[OF assms[unfolded train_and_evaluate_def]] by simp

section \<open>Properties of the policy updates\<close>

lemma count_list_concat_map:
  assumes "\<And>i. count_list (f i) x = c"
  shows "count_list (concat (map f xs)) x = c * length xs"
  by (induction xs) (simp_all add: assms)

lemma count_list_concat_map_zero:
  assumes "\<And>i. count_list (f i) x = 0"
  shows "count_list (concat (map f xs)) x = 0"
  using count_list_concat_map[of f x 0 xs] assms by simp














section \<open>Properties of the on-policy collect phase\<close>










end
